theory Spec2Isabelle
  imports Main "HOL-Library.Word" "HOL-Library.Sublist"
begin

unbundle bit_operations_syntax

section \<open>The XML2 renderer of mmark (xml2/renderer.go)\<close>

text \<open>
  The renderer is a visitor over a markdown syntax tree. It writes XML to a writer and keeps
  a small state: the document matter, the open section, whether a title block was written,
  and the heading identifiers seen. The writer is modelled by the string written so far,
  the renderer by a record that each operation returns updated.
\<close>

subsection \<open>Flags and options\<close>

type_synonym Flags = "64 word"

text \<open>
  The constant block starts with \<open>FlagsNone\<close> at \<open>iota = 0\<close>, so \<open>XMLFragment\<close>,
  declared second as \<open>1 << iota\<close>, is \<open>1 << 1\<close>, and the two flags after it repeat the
  expression with \<open>iota = 2\<close> and \<open>iota = 3\<close>.
\<close>

definition FlagsNone :: Flags where
  "FlagsNone = 0"

definition XMLFragment :: Flags where
  "XMLFragment = push_bit 1 1"

definition SkipHTML :: Flags where
  "SkipHTML = push_bit 2 1"

definition SkipImages :: Flags where
  "SkipImages = push_bit 3 1"

definition CommonFlags :: Flags where
  "CommonFlags = SkipImages"

subsection \<open>The syntax tree\<close>

text \<open>
  Nodes live in a heap addressed by node identifiers, because the renderer follows parent
  and sibling links and removes caption nodes from the tree while it is being walked.
  \<open>NodeData\<close> has one constructor for each node type the dispatcher knows, with the
  fields the renderer reads, and \<open>Other\<close> (carrying the Go type name) for every other
  node type.
\<close>

type_synonym nid = nat

datatype DocumentMatters = DocumentMatterNone | DocumentMatterFront | DocumentMatterMain
  | DocumentMatterBack

datatype CitationTypes = CitationTypeNone | CitationTypeInformative | CitationTypeNormative
  | CitationTypeSuppressed

datatype CellAlignFlags = TableAlignmentNone | TableAlignmentLeft | TableAlignmentRight
  | TableAlignmentCenter

record Heading =
  HeadingID :: string
  Level :: int
  IsSpecial :: bool
  Literal :: string

record ListData =
  ListFlags :: "64 word"
  Start :: int
  IsFootnotesList :: bool

datatype NodeData =
    Document
  | Title
  | Bibliography
  | BibliographyItem
  | DocumentIndex | IndexLetter | IndexItem | IndexSubItem | IndexLink
  | Text string
  | Softbreak
  | Hardbreak
  | Callout string
  | Emph
  | Strong
  | Del
  | Citation "string list" "CitationTypes list"
  | DocumentMatter DocumentMatters
  | HeadingNode Heading
  | Paragraph
  | HTMLSpan string
  | HTMLBlock
  | ListNode ListData
  | ListItem "64 word" bool
  | CodeBlock string string
  | Caption
  | CaptionFigure
  | Table
  | TableCell bool CellAlignFlags
  | TableHeader
  | TableBody
  | TableRow
  | TableFooter
  | BlockQuote
  | Aside
  | CrossReference string
  | Index string bool string
  | Link string
  | Math
  | Image string "string option"
  | Code string
  | MathBlock string
  | Other string

record Node =
  data :: NodeData
  Parent :: "nid option"
  Children :: "nid list"
  isContainer :: bool

type_synonym Tree = "nid \<Rightarrow> Node"

datatype WalkStatus = GoToNext | SkipChildren | Terminate

text \<open>
  A render hook gets the writer, the node and the entering flag. A writer can only be
  appended to, so the hook is given by the text it writes, the walk status it returns and
  whether it handled the node.
\<close>

type_synonym RenderNodeFunc = "Tree \<Rightarrow> nid \<Rightarrow> bool \<Rightarrow> string \<times> WalkStatus \<times> bool"

record RendererOptions =
  CalloutPrefix :: string
  Flags :: Flags
  RenderNodeHook :: "RenderNodeFunc option"
  Comments :: "string list option"

record Renderer =
  opts :: RendererOptions
  documentMatter :: DocumentMatters
  sectionR :: "Heading option"
  title :: bool
  headingIDs :: "string \<rightharpoonup> int"

definition NewRenderer :: "RendererOptions \<Rightarrow> Renderer" where
  "NewRenderer options = \<lparr>opts = options, documentMatter = DocumentMatterNone, sectionR = None,
     title = False, headingIDs = Map.empty\<rparr>"

subsection \<open>Functions of other packages and files\<close>

text \<open>
  The renderer calls functions that are not part of renderer.go: the escaping and
  attribute functions of the html package, the predicates of the xml package, the list
  flag constants of the ast package, and the title block, bibliography, callout and
  language attribute writers of the renderer's other files. They are parameters of the
  model; each writer is given by the text it writes.
\<close>

record Ext =
  EscapeHTML :: "string \<Rightarrow> string"
  BlockAttrs :: "Node \<Rightarrow> string list"
  IsAbstract :: "string \<Rightarrow> bool"
  Is2119 :: "string \<Rightarrow> bool"
  AttributesContains :: "string \<Rightarrow> string list \<Rightarrow> bool"
  titleBlock :: "Node \<Rightarrow> string"
  bibliography :: "Node \<Rightarrow> bool \<Rightarrow> string"
  bibliographyItem :: "Node \<Rightarrow> string"
  EscapeHTMLCallouts :: "RendererOptions \<Rightarrow> string \<Rightarrow> string"
  appendLanguageAttr :: "string list \<Rightarrow> string \<Rightarrow> string list"
  ListTypeOrdered :: "64 word"
  ListTypeDefinition :: "64 word"
  ListTypeTerm :: "64 word"

subsection \<open>Output primitives\<close>

definition nl :: string where
  "nl = [CHR 0x0A]"

text \<open>
  Modelled from the spec: the raw writers \<open>out\<close>, \<open>outs\<close>, \<open>cr\<close>, \<open>outOneOf\<close>,
  \<open>outOneOfCr\<close> and \<open>outTag\<close> are in a file of the package that is missing. All
  components write to one output sink and none reads back from it: \<open>out\<close> and \<open>outs\<close>
  append their argument, \<open>cr\<close> appends a line break, \<open>outOneOf\<close> appends the first
  text when its flag is set and the second otherwise, \<open>outOneOfCr\<close> does the same with a
  line break before the first and after the second, and \<open>outTag\<close> appends a tag name,
  its attributes separated by blanks, and the closing bracket.
\<close>

definition outs :: "string \<Rightarrow> string \<Rightarrow> string" where
  "outs w s = w @ s"

definition out :: "string \<Rightarrow> string \<Rightarrow> string" where
  "out w d = w @ d"

definition cr :: "string \<Rightarrow> string" where
  "cr w = outs w nl"

definition outOneOf :: "string \<Rightarrow> bool \<Rightarrow> string \<Rightarrow> string \<Rightarrow> string" where
  "outOneOf w outFirst first second = (if outFirst then outs w first else outs w second)"

definition outOneOfCr :: "string \<Rightarrow> bool \<Rightarrow> string \<Rightarrow> string \<Rightarrow> string" where
  "outOneOfCr w outFirst first second =
     (if outFirst then outs (cr w) first else cr (outs w second))"

fun Join :: "string list \<Rightarrow> string \<Rightarrow> string" where
  "Join [] sep = []"
| "Join [a] sep = a"
| "Join (a # b # rest) sep = a @ sep @ Join (b # rest) sep"

definition outTag :: "string \<Rightarrow> string \<Rightarrow> string list \<Rightarrow> string" where
  "outTag w name attrs =
     outs w ((if attrs \<noteq> [] then name @ '' '' @ Join attrs '' '' else name) @ ''>'')"

definition tagWithAttributes :: "string \<Rightarrow> string list \<Rightarrow> string" where
  "tagWithAttributes name attrs =
     (if attrs \<noteq> [] then name @ '' '' @ Join attrs '' '' else name) @ ''>''"

text \<open>The decimal text of a number, as the \<open>%d\<close> verb of \<open>Sprintf\<close> prints it.\<close>

definition digit :: "nat \<Rightarrow> char" where
  "digit d = (if d = 0 then CHR ''0'' else if d = 1 then CHR ''1'' else if d = 2 then CHR ''2''
     else if d = 3 then CHR ''3'' else if d = 4 then CHR ''4'' else if d = 5 then CHR ''5''
     else if d = 6 then CHR ''6'' else if d = 7 then CHR ''7'' else if d = 8 then CHR ''8''
     else CHR ''9'')"

fun showNat :: "nat \<Rightarrow> string" where
  "showNat n = (if n < 10 then [digit n] else showNat (n div 10) @ [digit (n mod 10)])"

definition showInt :: "int \<Rightarrow> string" where
  "showInt i = (if i < 0 then ''-'' @ showNat (nat (- i)) else showNat (nat i))"

subsection \<open>Sections and headings\<close>

text \<open>
  Modelled from the spec: \<open>sectionClose\<close> is in a file of the package that is missing.
  The section manager keeps a single current open heading. On a new heading, a document
  matter transition or the end of the document it emits one closing tag for the current
  open heading if there is one, regardless of the new heading's level, and records the
  new heading (none at a matter transition and at the end) as current. A special heading
  opens an \<open>abstract\<close> or \<open>note\<close> element instead of a section, and is tracked only to
  close that element, so its closing tag is the one of its own element.
\<close>

definition closeTag :: "Ext \<Rightarrow> Heading \<Rightarrow> string" where
  "closeTag X h = (if IsSpecial h then (if IsAbstract X (Literal h) then ''</abstract>''
     else ''</note>'') else ''</section>'')"

definition sectionClose :: "Ext \<Rightarrow> string \<Rightarrow> Renderer \<Rightarrow> Heading option \<Rightarrow> string \<times> Renderer" where
  "sectionClose X w r new =
     (case sectionR r of
        None \<Rightarrow> (w, r\<lparr>sectionR := new\<rparr>)
      | Some cur \<Rightarrow> (cr (outs w (closeTag X cur)), r\<lparr>sectionR := new\<rparr>))"

text \<open>
  Modelled from the spec: \<open>ensureUniqueHeadingID\<close> is in a file of the package that is
  missing. The allocator maps each candidate to an occurrence counter. The first
  occurrence of a candidate returns it unchanged and records the count 1; each later
  occurrence increments the counter and returns the candidate with a suffix derived
  from the counter, here a dash and the counter in decimal.
\<close>

definition ensureUniqueHeadingID :: "Renderer \<Rightarrow> string \<Rightarrow> string \<times> Renderer" where
  "ensureUniqueHeadingID r candidate =
     (case headingIDs r candidate of
        None \<Rightarrow> (candidate, r\<lparr>headingIDs := (headingIDs r)(candidate \<mapsto> 1)\<rparr>)
      | Some count \<Rightarrow>
          (candidate @ ''-'' @ showInt (count + 1),
           r\<lparr>headingIDs := (headingIDs r)(candidate \<mapsto> count + 1)\<rparr>))"

definition headingEnter :: "Ext \<Rightarrow> string \<Rightarrow> Renderer \<Rightarrow> Heading \<Rightarrow> string \<times> Renderer" where
  \<open>headingEnter X w0 r heading =
     (let w = cr w0 in
      if IsSpecial heading \<and> IsAbstract X (Literal heading) then (outs w ''<abstract>'', r)
      else
        let tag = (if IsSpecial heading then ''<note'' else ''<section'');
            (attrs, r1) =
               (if HeadingID heading \<noteq> [] then
                  (let (id, r') = ensureUniqueHeadingID r (HeadingID heading)
                   in ([''anchor="'' @ id @ ''"''], r'))
                else ([], r));
            attr = (if attrs \<noteq> [] then '' '' @ Join attrs '' '' else [])
        in (outs (outs w tag) (attr @ '' title="''), r1))\<close>

definition headingExit :: "string \<Rightarrow> Heading \<Rightarrow> string" where
  "headingExit w heading = cr w"

definition heading :: "Ext \<Rightarrow> string \<Rightarrow> Renderer \<Rightarrow> Heading \<Rightarrow> bool \<Rightarrow> string \<times> Renderer" where
  "heading X w r node entering =
     (if \<not> entering then (headingExit w node, r)
      else (let (w1, r1) = sectionClose X w r (Some node) in headingEnter X w1 r1 node))"

subsection \<open>Document matter, header and footer\<close>

definition matter :: "Ext \<Rightarrow> string \<Rightarrow> Renderer \<Rightarrow> DocumentMatters \<Rightarrow> string \<times> Renderer" where
  "matter X w0 r m =
     (let (w, r1) = sectionClose X w0 r None;
          w' = (case m of
                  DocumentMatterFront \<Rightarrow> cr (outs (cr w) ''<front>'')
                | DocumentMatterMain \<Rightarrow> cr (outs (cr (cr (outs (cr w) ''</front>''))) ''<middle>'')
                | DocumentMatterBack \<Rightarrow> cr (outs (cr (cr (outs (cr w) ''</middle>''))) ''<back>'')
                | DocumentMatterNone \<Rightarrow> w)
      in (w', r1\<lparr>documentMatter := m\<rparr>))"

definition writeDocumentHeader :: "string \<Rightarrow> Renderer \<Rightarrow> string" where
  \<open>writeDocumentHeader w r =
     (if Flags (opts r) AND XMLFragment \<noteq> 0 then w
      else
        cr (outs (cr (outs (cr (outs w ''<?xml version="1.0" encoding="utf-8"?>''))
          ''<!-- name="GENERATOR" content="github.com/mmarkdown/mmark markdown processor for Go" -->''))
          ''<!DOCTYPE rfc SYSTEM 'rfc2629.dtd' []>''))\<close>

definition RenderHeader :: "string \<Rightarrow> Renderer \<Rightarrow> string" where
  "RenderHeader w r =
     (if Flags (opts r) AND XMLFragment \<noteq> 0 then w else writeDocumentHeader w r)"

definition RenderFooter :: "Ext \<Rightarrow> string \<Rightarrow> Renderer \<Rightarrow> string \<times> Renderer" where
  "RenderFooter X w0 r =
     (let (w, r1) = sectionClose X w0 r None;
          w1 = (case documentMatter r1 of
                  DocumentMatterFront \<Rightarrow> outs w (nl @ ''</front>'' @ nl)
                | DocumentMatterMain \<Rightarrow> outs w (nl @ ''</middle>'' @ nl)
                | DocumentMatterBack \<Rightarrow> outs w (nl @ ''</back>'' @ nl)
                | DocumentMatterNone \<Rightarrow> w)
      in (if title r1 then w1 @ nl @ ''</rfc>'' else w1, r1))"

subsection \<open>Tree access\<close>

text \<open>
  The accessors of the ast package that the renderer uses. A slice of children is a list
  of node identifiers, read as a value. \<open>RemoveFromTree\<close> does nothing to a node
  without a parent; otherwise it clears the node's own children and takes the node out
  of its parent's children.
\<close>

definition parentData :: "Tree \<Rightarrow> nid \<Rightarrow> NodeData option" where
  "parentData t n = map_option (\<lambda>p. data (t p)) (Parent (t n))"

definition GetFirstChild :: "Tree \<Rightarrow> nid \<Rightarrow> nid option" where
  "GetFirstChild t n = (case Children (t n) of [] \<Rightarrow> None | c # _ \<Rightarrow> Some c)"

fun nextOf :: "nid \<Rightarrow> nid list \<Rightarrow> nid option" where
  "nextOf n (a # b # rest) = (if a = n then Some b else nextOf n (b # rest))"
| "nextOf n _ = None"

fun prevOf :: "nid \<Rightarrow> nid list \<Rightarrow> nid option" where
  "prevOf n (a # b # rest) = (if b = n then Some a else prevOf n (b # rest))"
| "prevOf n _ = None"

definition GetNextNode :: "Tree \<Rightarrow> nid \<Rightarrow> nid option" where
  "GetNextNode t n = (case Parent (t n) of None \<Rightarrow> None | Some p \<Rightarrow> nextOf n (Children (t p)))"

definition GetPrevNode :: "Tree \<Rightarrow> nid \<Rightarrow> nid option" where
  "GetPrevNode t n = (case Parent (t n) of None \<Rightarrow> None | Some p \<Rightarrow> prevOf n (Children (t p)))"

definition RemoveFromTree :: "Tree \<Rightarrow> nid \<Rightarrow> Tree" where
  "RemoveFromTree t n =
     (case Parent (t n) of
        None \<Rightarrow> t
      | Some p \<Rightarrow>
          (let t1 = t(n := (t n)\<lparr>Children := []\<rparr>)
           in if n \<in> set (Children (t1 p))
              then t1(p := (t1 p)\<lparr>Children := remove1 n (Children (t1 p))\<rparr>)
              else t1))"

subsection \<open>The state of a walk and its errors\<close>

text \<open>
  A walk threads the writer \<open>W\<close>, the renderer \<open>R\<close> and the tree \<open>T\<close>. \<open>Visits\<close> is
  a history variable: the dispatcher appends each of its calls to it and nothing reads it.
  An unknown node type makes the dispatcher panic, an index past the end of a slice makes
  the Go runtime panic, and \<open>OutOfFuel\<close> says that the model's fuel for nested walks was
  too small.
\<close>

record St =
  W :: string
  R :: Renderer
  T :: Tree
  Visits :: "(nid \<times> bool) list"

datatype error = UnknownNode string | IndexOutOfRange | OutOfFuel

type_synonym Result = "error + (WalkStatus \<times> St)"

type_synonym Visitor = "St \<Rightarrow> nid \<Rightarrow> bool \<Rightarrow> Result"

subsection \<open>The node handlers\<close>

definition text_node :: "Ext \<Rightarrow> string \<Rightarrow> Tree \<Rightarrow> nid \<Rightarrow> string \<Rightarrow> string" where
  \<open>text_node X w t n literal =
     (case parentData t n of
        Some (Link d) \<Rightarrow> out w literal
      | Some (HeadingNode h) \<Rightarrow>
          (if IsSpecial h \<and> IsAbstract X (Literal h) then w
           else outs (w @ EscapeHTML X literal) ''">'')
      | pd \<Rightarrow>
          (let w1 = w @ EscapeHTML X literal
           in if pd = Some Caption then outs w1 ''">'' else w1))\<close>

definition hardBreak :: "string \<Rightarrow> string" where
  "hardBreak w = cr (outs w ''<vspace />'')"

definition strong :: "Ext \<Rightarrow> string \<Rightarrow> Tree \<Rightarrow> nid \<Rightarrow> bool \<Rightarrow> string" where
  \<open>strong X w t n entering =
     (case map_option (\<lambda>c. data (t c)) (GetFirstChild t n) of
        Some (Text lit) \<Rightarrow>
          (if Is2119 X lit then outOneOf w entering [] []
           else outOneOf w entering ''<spanx style="strong">'' ''</spanx>'')
      | _ \<Rightarrow> outOneOf w entering ''<spanx style="strong">'' ''</spanx>'')\<close>

fun citationLoop :: "string \<Rightarrow> nat \<Rightarrow> string list \<Rightarrow> CitationTypes list \<Rightarrow> error + string" where
  "citationLoop w i [] types = Inr w"
| \<open>citationLoop w i (c # cs) types =
     (if length types \<le> i then Inl IndexOutOfRange
      else if types ! i = CitationTypeSuppressed then citationLoop w (Suc i) cs types
      else citationLoop (outs (outTag w ''<xref'' [''target="'' @ c @ ''"'']) ''</xref>'')
             (Suc i) cs types)\<close>

definition citation :: "string \<Rightarrow> string list \<Rightarrow> CitationTypes list \<Rightarrow> bool \<Rightarrow> error + string" where
  "citation w dests types entering =
     (if \<not> entering then Inr w else citationLoop w 0 dests types)"

text \<open>
  A paragraph is a node of the tree or, in \<open>list_node\<close>, a fresh paragraph that is not
  in the tree: \<open>self\<close> is the identifier of the former and \<open>None\<close> for the latter.
\<close>

definition emptyParagraph :: Node where
  "emptyParagraph = \<lparr>data = Paragraph, Parent = None, Children = [], isContainer = True\<rparr>"

definition parentIsListItem :: "Tree \<Rightarrow> Node \<Rightarrow> bool" where
  "parentIsListItem t nd =
     (case Parent nd of None \<Rightarrow> False
      | Some p \<Rightarrow> (case data (t p) of ListItem f rl \<Rightarrow> True | _ \<Rightarrow> False))"

definition paragraphEnter :: "Ext \<Rightarrow> string \<Rightarrow> Tree \<Rightarrow> Node \<Rightarrow> nid option \<Rightarrow> string" where
  "paragraphEnter X w t para self =
     (if parentIsListItem t para then
        (let p = the (Parent para)
         in if length (Children (t p)) > 1 \<and> GetFirstChild t p \<noteq> self then hardBreak w else w)
      else outs w (tagWithAttributes ''<t'' (BlockAttrs X para)))"

definition paragraphExit :: "string \<Rightarrow> Tree \<Rightarrow> Node \<Rightarrow> string" where
  "paragraphExit w t para =
     (if parentIsListItem t para then w else cr (outs w ''</t>''))"

definition paragraph_node :: "Ext \<Rightarrow> string \<Rightarrow> Tree \<Rightarrow> nid \<Rightarrow> bool \<Rightarrow> string" where
  "paragraph_node X w t n entering =
     (if entering then paragraphEnter X w t (t n) (Some n) else paragraphExit w t (t n))"

definition listEnter :: "Ext \<Rightarrow> string \<Rightarrow> Node \<Rightarrow> ListData \<Rightarrow> string" where
  \<open>listEnter X w0 nd nodeData =
     (let w1 = (if IsFootnotesList nodeData
                then cr (outs w0 (nl @ ''<div class="footnotes">'' @ nl @ nl)) else w0);
          w2 = cr w1;
          ordered = (ListFlags nodeData AND ListTypeOrdered X \<noteq> 0);
          attrs0 = (if ordered \<and> Start nodeData > 0
                    then [''start="'' @ showInt (Start nodeData) @ ''"''] else []);
          style0 = (if ordered then ''style="numbers"'' else ''style="symbols"'');
          style = (if ListFlags nodeData AND ListTypeDefinition X \<noteq> 0
                   then ''style="hanging"'' else style0);
          attrs1 = attrs0 @ BlockAttrs X nd;
          attrs = (if \<not> AttributesContains X ''style'' attrs1 then attrs1 @ [style] else attrs1)
      in cr (outTag w2 ''<list'' attrs))\<close>

definition listExit :: "string \<Rightarrow> Tree \<Rightarrow> nid \<Rightarrow> ListData \<Rightarrow> string" where
  \<open>listExit w0 t n nodeData =
     (let w1 = outs w0 ''</list>'';
          w2 = (case parentData t n of
                  Some (ListItem f rl) \<Rightarrow> (if GetNextNode t n \<noteq> None then cr w1 else w1)
                | Some Document \<Rightarrow> cr w1
                | Some BlockQuote \<Rightarrow> cr w1
                | Some Aside \<Rightarrow> cr w1
                | _ \<Rightarrow> w1)
      in if IsFootnotesList nodeData then outs w2 (nl @ ''</div>'' @ nl) else w2)\<close>

definition list_node :: "Ext \<Rightarrow> string \<Rightarrow> Tree \<Rightarrow> nid \<Rightarrow> ListData \<Rightarrow> bool \<Rightarrow> string" where
  "list_node X w t n nodeData entering =
     (let parentIsList = parentIsListItem t (t n)
      in if entering then
           listEnter X (if \<not> parentIsList then paragraphEnter X w t emptyParagraph None else w)
             (t n) nodeData
         else
           (let w1 = listExit w t n nodeData
            in if \<not> parentIsList then paragraphExit w1 t emptyParagraph else w1))"

definition listItemEnter :: "Ext \<Rightarrow> string \<Rightarrow> 64 word \<Rightarrow> bool \<Rightarrow> string" where
  \<open>listItemEnter X w flags hasRefLink =
     (if hasRefLink then w
      else
        (let openTag0 = (if flags AND ListTypeDefinition X \<noteq> 0 then ''<vspace />'' else ''<t>'');
             openTag = (if flags AND ListTypeTerm X \<noteq> 0 then ''<t hangText="'' else openTag0)
         in outs w openTag))\<close>

definition listItemExit :: "Ext \<Rightarrow> string \<Rightarrow> 64 word \<Rightarrow> string" where
  \<open>listItemExit X w flags =
     cr (outs w (if flags AND ListTypeTerm X \<noteq> 0 then ''">'' else ''</t>''))\<close>

definition listItem :: "Ext \<Rightarrow> string \<Rightarrow> 64 word \<Rightarrow> bool \<Rightarrow> bool \<Rightarrow> string" where
  "listItem X w flags hasRefLink entering =
     (if entering then listItemEnter X w flags hasRefLink else listItemExit X w flags)"

definition codeBlock :: "Ext \<Rightarrow> string \<Rightarrow> Renderer \<Rightarrow> Tree \<Rightarrow> nid \<Rightarrow> string \<Rightarrow> string \<Rightarrow> string" where
  \<open>codeBlock X w0 r t n literal info =
     (let attrs = appendLanguageAttr X [] info @ BlockAttrs X (t n);
          w1 = cr w0;
          inFigure = (parentData t n = Some CaptionFigure);
          w2 = (if inFigure then outTag w1 ''<artwork'' attrs
                else outTag w1 ''<figure><artwork'' attrs);
          w3 = (if Comments (opts r) \<noteq> None then w2 @ EscapeHTMLCallouts X (opts r) literal
                else w2 @ EscapeHTML X literal);
          w4 = (if inFigure then outs w3 ''</artwork>'' else outs w3 ''</artwork></figure>'')
      in cr w4)\<close>

definition alignString :: "CellAlignFlags \<Rightarrow> string" where
  "alignString a = (case a of TableAlignmentLeft \<Rightarrow> ''left'' | TableAlignmentRight \<Rightarrow> ''right''
     | TableAlignmentCenter \<Rightarrow> ''center'' | TableAlignmentNone \<Rightarrow> [])"

definition tableCell :: "string \<Rightarrow> Tree \<Rightarrow> nid \<Rightarrow> bool \<Rightarrow> CellAlignFlags \<Rightarrow> bool \<Rightarrow> string" where
  \<open>tableCell w t n isHeader align entering =
     (if \<not> entering then cr (outOneOf w isHeader ''</ttcol>'' ''</c>'')
      else
        (let openTag = (if isHeader then ''<ttcol'' else ''<c'');
             attrs = (if alignString align \<noteq> [] then [''align="'' @ alignString align @ ''"'']
                      else []);
             w1 = (if GetPrevNode t n = None then cr w else w)
         in outTag w1 openTag attrs))\<close>

definition tableBody :: "string \<Rightarrow> bool \<Rightarrow> string" where
  "tableBody w entering = outOneOfCr w entering [] []"

definition htmlSpan :: "string \<Rightarrow> Renderer \<Rightarrow> string \<Rightarrow> string" where
  "htmlSpan w r literal = (if Flags (opts r) AND SkipHTML = 0 then out w literal else w)"

definition callout :: "string \<Rightarrow> string \<Rightarrow> string" where
  \<open>callout w ident = outs (out (outs w ''<spanx style="emph">'') ident) ''</spanx>''\<close>

definition crossReference :: "string \<Rightarrow> string \<Rightarrow> bool \<Rightarrow> string" where
  \<open>crossReference w dest entering =
     (if entering then outTag w ''<xref'' [''target="'' @ dest @ ''"''] else outs w ''</xref>'')\<close>

definition index :: "Ext \<Rightarrow> string \<Rightarrow> string \<Rightarrow> bool \<Rightarrow> string \<Rightarrow> string" where
  \<open>index X w0 item primary subitem =
     (let w1 = outs (outs (outs w0 ''<iref'') '' item="'' @ EscapeHTML X item) ''"'';
          w2 = (if primary then outs w1 '' primary="true"'' else w1);
          w3 = (if length subitem \<noteq> 0
                then outs (outs w2 '' subitem="'' @ EscapeHTML X subitem) ''"'' else w2)
      in outs w3 ''></iref>'')\<close>

definition link :: "Ext \<Rightarrow> string \<Rightarrow> string \<Rightarrow> bool \<Rightarrow> string" where
  \<open>link X w dest entering =
     outs (outs (outs w ''<eref'') '' target="'' @ EscapeHTML X dest) ''"></iref>''\<close>

definition imageEnter :: "Ext \<Rightarrow> string \<Rightarrow> string \<Rightarrow> string" where
  \<open>imageEnter X w dest = outs (outs w ''<img src="'' @ EscapeHTML X dest) ''" alt="''\<close>

definition imageExit :: "Ext \<Rightarrow> string \<Rightarrow> string option \<Rightarrow> string" where
  \<open>imageExit X w ttl =
     outs (case ttl of None \<Rightarrow> w | Some tt \<Rightarrow> outs w ''" name="'' @ EscapeHTML X tt) ''" />''\<close>

definition image_node :: "Ext \<Rightarrow> string \<Rightarrow> string \<Rightarrow> string option \<Rightarrow> bool \<Rightarrow> string" where
  "image_node X w dest ttl entering = (if entering then imageEnter X w dest else imageExit X w ttl)"

definition code :: "Ext \<Rightarrow> string \<Rightarrow> string \<Rightarrow> string" where
  \<open>code X w literal = outs (outs w ''<spanx style="verb">'' @ EscapeHTML X literal) ''</spanx>''\<close>

definition mathBlock :: "Ext \<Rightarrow> string \<Rightarrow> Renderer \<Rightarrow> string \<Rightarrow> string" where
  \<open>mathBlock X w0 r literal =
     (let w1 = outs w0 (''<artwork type="math">'' @ nl);
          w2 = (if Comments (opts r) \<noteq> None then w1 @ EscapeHTMLCallouts X (opts r) literal
                else w1 @ EscapeHTML X literal)
      in cr (outs w2 ''</artwork>''))\<close>

subsection \<open>The walk driver\<close>

text \<open>
  \<open>Walk\<close> is the driver of the ast package: it calls the visitor on a node on entering,
  then walks the children the node has after that call, then calls the visitor on
  exiting if the node is a container. A leaf is visited once. \<open>SkipChildren\<close> skips the
  children, \<open>Terminate\<close> stops the walk after closing the node. The children are read
  once, before the first of them is walked. The fuel bounds the depth of the walk, since
  a heap of nodes need not be a finite tree.
\<close>

fun Walk :: "nat \<Rightarrow> Visitor \<Rightarrow> St \<Rightarrow> nid \<Rightarrow> Result"
  and WalkChildren :: "nat \<Rightarrow> Visitor \<Rightarrow> St \<Rightarrow> nid list \<Rightarrow> Result" where
  "Walk 0 visitor s n = Inl OutOfFuel"
| "Walk (Suc k) visitor s n =
     (case visitor s n True of
        Inl e \<Rightarrow> Inl e
      | Inr (status, s1) \<Rightarrow>
          if status = Terminate then
            (if isContainer (T s n) then
               (case visitor s1 n False of Inl e \<Rightarrow> Inl e | Inr (st, s2) \<Rightarrow> Inr (Terminate, s2))
             else Inr (Terminate, s1))
          else
            (case (if isContainer (T s n) \<and> status \<noteq> SkipChildren
                   then WalkChildren k visitor s1 (Children (T s1 n))
                   else Inr (GoToNext, s1)) of
               Inl e \<Rightarrow> Inl e
             | Inr (status2, s2) \<Rightarrow>
                 if status2 = Terminate then Inr (Terminate, s2)
                 else if isContainer (T s n) then
                   (case visitor s2 n False of
                      Inl e \<Rightarrow> Inl e
                    | Inr (status3, s3) \<Rightarrow>
                        Inr (if status3 = Terminate then Terminate else GoToNext, s3))
                 else Inr (GoToNext, s2)))"
| "WalkChildren k visitor s [] = Inr (GoToNext, s)"
| "WalkChildren k visitor s (c # cs) =
     (case Walk k visitor s c of
        Inl e \<Rightarrow> Inl e
      | Inr (status, s1) \<Rightarrow>
          if status = Terminate then Inr (Terminate, s1) else WalkChildren k visitor s1 cs)"

subsection \<open>Figures and tables\<close>

text \<open>
  Both handlers walk a caption with the dispatcher as visitor and then remove the caption
  from the tree. \<open>walk\<close> is that nested walk. The figure handler does so for every
  caption among the children it had when the loop began; the table handler stops at the
  first caption of its parent.
\<close>

fun hasTable :: "Tree \<Rightarrow> nid list \<Rightarrow> bool" where
  "hasTable t [] = False"
| "hasTable t (c # cs) = (if data (t c) = Table then True else hasTable t cs)"

fun captionLoop :: "(St \<Rightarrow> nid \<Rightarrow> Result) \<Rightarrow> St \<Rightarrow> nid list \<Rightarrow> error + St" where
  "captionLoop walk s [] = Inr s"
| "captionLoop walk s (child # rest) =
     (if data (T s child) = Caption then
        (case walk s child of
           Inl e \<Rightarrow> Inl e
         | Inr (status, s1) \<Rightarrow> captionLoop walk (s1\<lparr>T := RemoveFromTree (T s1) child\<rparr>) rest)
      else captionLoop walk s rest)"

definition captionFigure :: "(St \<Rightarrow> nid \<Rightarrow> Result) \<Rightarrow> St \<Rightarrow> nid \<Rightarrow> bool \<Rightarrow> error + St" where
  \<open>captionFigure walk s n entering =
     (if hasTable (T s) (Children (T s n)) then Inr s
      else if \<not> entering then Inr (s\<lparr>W := outs (W s) ''</figure>''\<rparr>)
      else captionLoop walk (s\<lparr>W := outs (outs (W s) ''<figure'') '' title="''\<rparr>)
             (Children (T s n)))\<close>

fun firstCaption :: "Tree \<Rightarrow> nid list \<Rightarrow> nid option" where
  "firstCaption t [] = None"
| "firstCaption t (c # cs) = (if data (t c) = Caption then Some c else firstCaption t cs)"

definition table :: "Ext \<Rightarrow> (St \<Rightarrow> nid \<Rightarrow> Result) \<Rightarrow> St \<Rightarrow> nid \<Rightarrow> bool \<Rightarrow> error + St" where
  \<open>table X walk s n entering =
     (if \<not> entering then Inr (s\<lparr>W := outs (W s) ''</texttable>''\<rparr>)
      else
        (let attrs = BlockAttrs X (T s n);
             sa = (if attrs \<noteq> [] then '' '' @ Join attrs '' '' else []);
             w = outs (outs (W s) ''<texttable'') sa
         in if parentData (T s) n \<noteq> Some CaptionFigure then Inr (s\<lparr>W := outs w ''>''\<rparr>)
            else
              (let s1 = s\<lparr>W := outs w '' title="''\<rparr>
               in case firstCaption (T s1) (Children (T s1 (the (Parent (T s1 n))))) of
                    None \<Rightarrow> Inr s1
                  | Some caption \<Rightarrow>
                      (case walk s1 caption of
                         Inl e \<Rightarrow> Inl e
                       | Inr (status, s2) \<Rightarrow>
                           Inr (s2\<lparr>T := RemoveFromTree (T s2) caption\<rparr>)))))\<close>

subsection \<open>The dispatcher\<close>

text \<open>
  \<open>RenderNodeBody\<close> is the body of \<open>RenderNode\<close>, with the walk that the figure and
  table handlers start as a parameter. \<open>RenderNode\<close> closes the recursion: with fuel
  \<open>k + 1\<close> a nested walk runs \<open>Walk\<close> with fuel \<open>k\<close> and \<open>RenderNode\<close> with fuel
  \<open>k\<close> as its visitor.
\<close>

definition simple :: "St \<Rightarrow> string \<Rightarrow> Result" where
  "simple s w = Inr (GoToNext, s\<lparr>W := w\<rparr>)"

definition lifted :: "error + St \<Rightarrow> Result" where
  "lifted x = (case x of Inl e \<Rightarrow> Inl e | Inr s \<Rightarrow> Inr (GoToNext, s))"

definition dispatch :: "(St \<Rightarrow> nid \<Rightarrow> Result) \<Rightarrow> Ext \<Rightarrow> St \<Rightarrow> nid \<Rightarrow> bool \<Rightarrow> Result" where
  \<open>dispatch walk X s n entering =
     (let w = W s; r = R s; t = T s in
      case data (t n) of
        Document \<Rightarrow> simple s w
      | Title \<Rightarrow> Inr (GoToNext, s\<lparr>W := w @ titleBlock X (t n), R := r\<lparr>title := True\<rparr>\<rparr>)
      | Bibliography \<Rightarrow> simple s (w @ bibliography X (t n) entering)
      | BibliographyItem \<Rightarrow> simple s (w @ bibliographyItem X (t n))
      | DocumentIndex \<Rightarrow> simple s w
      | IndexLetter \<Rightarrow> simple s w
      | IndexItem \<Rightarrow> simple s w
      | IndexSubItem \<Rightarrow> simple s w
      | IndexLink \<Rightarrow> simple s w
      | Text literal \<Rightarrow> simple s (text_node X w t n literal)
      | Softbreak \<Rightarrow> simple s (cr w)
      | Hardbreak \<Rightarrow> simple s (hardBreak w)
      | Callout ident \<Rightarrow> simple s (callout w ident)
      | Emph \<Rightarrow> simple s (outOneOf w entering ''<spanx style="emph">'' ''</spanx>'')
      | Strong \<Rightarrow> simple s (strong X w t n entering)
      | Del \<Rightarrow> simple s (outOneOf w entering ''<del>'' ''</del>'')
      | Citation dests types \<Rightarrow>
          (case citation w dests types entering of Inl e \<Rightarrow> Inl e | Inr w' \<Rightarrow> simple s w')
      | DocumentMatter m \<Rightarrow>
          (if entering then (let (w', r') = matter X w r m in Inr (GoToNext, s\<lparr>W := w', R := r'\<rparr>))
           else simple s w)
      | HeadingNode h \<Rightarrow>
          (let (w', r') = heading X w r h entering in Inr (GoToNext, s\<lparr>W := w', R := r'\<rparr>))
      | Paragraph \<Rightarrow> simple s (paragraph_node X w t n entering)
      | HTMLSpan literal \<Rightarrow> simple s (htmlSpan w r literal)
      | HTMLBlock \<Rightarrow> simple s w
      | ListNode nodeData \<Rightarrow> simple s (list_node X w t n nodeData entering)
      | ListItem flags hasRefLink \<Rightarrow> simple s (listItem X w flags hasRefLink entering)
      | CodeBlock literal info \<Rightarrow> simple s (codeBlock X w r t n literal info)
      | Caption \<Rightarrow> simple s (outOneOf w entering [] [])
      | CaptionFigure \<Rightarrow> lifted (captionFigure walk s n entering)
      | Table \<Rightarrow> lifted (table X walk s n entering)
      | TableCell isHeader align \<Rightarrow> simple s (tableCell w t n isHeader align entering)
      | TableHeader \<Rightarrow> simple s (outOneOf w entering [] [])
      | TableBody \<Rightarrow> simple s (tableBody w entering)
      | TableRow \<Rightarrow> simple s (outOneOf w entering [] [])
      | TableFooter \<Rightarrow> simple s (outOneOf w entering [] [])
      | BlockQuote \<Rightarrow>
          simple s (outOneOfCr w entering (tagWithAttributes ''<blockquote'' (BlockAttrs X (t n)))
            ''</blockquote>'')
      | Aside \<Rightarrow>
          simple s (outOneOfCr w entering (tagWithAttributes ''<aside'' (BlockAttrs X (t n)))
            ''</aside>'')
      | CrossReference dest \<Rightarrow> simple s (crossReference w dest entering)
      | Index item primary subitem \<Rightarrow>
          (if entering then simple s (index X w item primary subitem) else simple s w)
      | Link dest \<Rightarrow> simple s (link X w dest entering)
      | Math \<Rightarrow> simple s (outOneOf w entering ''<spanx style="verb">'' ''</spanx>'')
      | Image dest ttl \<Rightarrow>
          (if Flags (opts r) AND SkipImages \<noteq> 0 then Inr (SkipChildren, s)
           else simple s (image_node X w dest ttl entering))
      | Code literal \<Rightarrow> simple s (code X w literal)
      | MathBlock literal \<Rightarrow> simple s (mathBlock X w r literal)
      | Other typeName \<Rightarrow> Inl (UnknownNode typeName))\<close>

definition RenderNodeBody :: "(St \<Rightarrow> nid \<Rightarrow> Result) \<Rightarrow> Ext \<Rightarrow> St \<Rightarrow> nid \<Rightarrow> bool \<Rightarrow> Result" where
  "RenderNodeBody walk X s0 n entering =
     (let s = s0\<lparr>Visits := Visits s0 @ [(n, entering)]\<rparr> in
      case RenderNodeHook (opts (R s)) of
        None \<Rightarrow> dispatch walk X s n entering
      | Some hook \<Rightarrow>
          (let (written, status, didHandle) = hook (T s) n entering;
               s1 = s\<lparr>W := W s @ written\<rparr>
           in if didHandle then Inr (status, s1) else dispatch walk X s1 n entering))"

primrec RenderNode :: "nat \<Rightarrow> Ext \<Rightarrow> St \<Rightarrow> nid \<Rightarrow> bool \<Rightarrow> Result" where
  "RenderNode 0 X = RenderNodeBody (\<lambda>s n. Inl OutOfFuel) X"
| "RenderNode (Suc k) X = RenderNodeBody (Walk k (RenderNode k X)) X"

text \<open>
  A render pass, as the caller of the renderer runs it: the header, a walk of the
  document with the dispatcher as visitor, and the footer.
\<close>

definition Render :: "nat \<Rightarrow> Ext \<Rightarrow> RendererOptions \<Rightarrow> Tree \<Rightarrow> nid \<Rightarrow> error + string" where
  "Render fuel X options t doc =
     (let r = NewRenderer options;
          w = RenderHeader [] r
      in case Walk fuel (RenderNode fuel X) \<lparr>W = w, R = r, T = t, Visits = []\<rparr> doc of
           Inl e \<Rightarrow> Inl e
         | Inr (status, s) \<Rightarrow> Inr (fst (RenderFooter X (W s) (R s))))"

subsection \<open>Notions used to state the properties\<close>

text \<open>
  The outcome of the render hook on a visit (nothing written and not handled when no hook
  is set), the state after the dispatcher has logged the visit and the hook has written,
  and the walk that the figure and table handlers run at a given fuel.
\<close>

definition hookOutcome :: "St \<Rightarrow> nid \<Rightarrow> bool \<Rightarrow> string \<times> WalkStatus \<times> bool" where
  "hookOutcome s n entering =
     (case RenderNodeHook (opts (R s)) of
        None \<Rightarrow> ([], GoToNext, False)
      | Some hook \<Rightarrow> hook (T s) n entering)"

definition visited :: "St \<Rightarrow> nid \<Rightarrow> bool \<Rightarrow> string \<Rightarrow> St" where
  "visited s n entering written = s\<lparr>Visits := Visits s @ [(n, entering)], W := W s @ written\<rparr>"

definition nestedWalk :: "nat \<Rightarrow> Ext \<Rightarrow> St \<Rightarrow> nid \<Rightarrow> Result" where
  "nestedWalk k X = (case k of 0 \<Rightarrow> (\<lambda>s n. Inl OutOfFuel) | Suc j \<Rightarrow> Walk j (RenderNode j X))"

text \<open>
  What a walk may change: the writer and the visit log only grow, the options stay, the
  title flag is never reset, and in the tree only lists of children shrink, by captions
  alone except in a caption itself.
\<close>

definition frames :: "Tree \<Rightarrow> Tree \<Rightarrow> bool" where
  "frames t t' \<longleftrightarrow>
     (\<forall>m. data (t' m) = data (t m) \<and> Parent (t' m) = Parent (t m)
        \<and> isContainer (t' m) = isContainer (t m)
        \<and> subseq (Children (t' m)) (Children (t m))
        \<and> (data (t m) \<noteq> Caption \<longrightarrow>
             filter (\<lambda>c. data (t c) \<noteq> Caption) (Children (t' m))
               = filter (\<lambda>c. data (t c) \<noteq> Caption) (Children (t m))))"

definition extends :: "St \<Rightarrow> St \<Rightarrow> bool" where
  "extends s s' \<longleftrightarrow> prefix (W s) (W s') \<and> prefix (Visits s) (Visits s')
     \<and> opts (R s') = opts (R s) \<and> (title (R s) \<longrightarrow> title (R s')) \<and> frames (T s) (T s')"

definition visitor_ok :: "Visitor \<Rightarrow> bool" where
  "visitor_ok v \<longleftrightarrow> (\<forall>s n e st s'. v s n e = Inr (st, s') \<longrightarrow> extends s s')"

definition walk_ok :: "(St \<Rightarrow> nid \<Rightarrow> Result) \<Rightarrow> bool" where
  "walk_ok walk \<longleftrightarrow> (\<forall>s n st s'. walk s n = Inr (st, s') \<longrightarrow> extends s s')"

text \<open>
  The number of places at which a text occurs in another, the text that \<open>sectionClose\<close>
  writes in a renderer state, whether a section element is open, and the visits of a
  sequence of headings, each entered and left.
\<close>

fun occurrences :: "string \<Rightarrow> string \<Rightarrow> nat" where
  "occurrences p [] = 0"
| "occurrences p (c # cs) = (if prefix p (c # cs) then 1 else 0) + occurrences p cs"

definition sectionCloseText :: "Ext \<Rightarrow> Renderer \<Rightarrow> string" where
  "sectionCloseText X r = (case sectionR r of None \<Rightarrow> [] | Some cur \<Rightarrow> closeTag X cur @ nl)"

definition sectionOpen :: "Renderer \<Rightarrow> bool" where
  "sectionOpen r = (case sectionR r of None \<Rightarrow> False | Some cur \<Rightarrow> \<not> IsSpecial cur)"

fun renderHeadings :: "Ext \<Rightarrow> string \<times> Renderer \<Rightarrow> Heading list \<Rightarrow> string \<times> Renderer" where
  "renderHeadings X wr [] = wr"
| "renderHeadings X wr (h # hs) =
     (let (w1, r1) = heading X (fst wr) (snd wr) h True;
          (w2, r2) = heading X w1 r1 h False
      in renderHeadings X (w2, r2) hs)"

text \<open>The tags of a transition into a document matter region.\<close>

definition matterTags :: "DocumentMatters \<Rightarrow> string" where
  "matterTags m =
     (case m of
        DocumentMatterNone \<Rightarrow> []
      | DocumentMatterFront \<Rightarrow> nl @ ''<front>'' @ nl
      | DocumentMatterMain \<Rightarrow> nl @ ''</front>'' @ nl @ nl @ ''<middle>'' @ nl
      | DocumentMatterBack \<Rightarrow> nl @ ''</middle>'' @ nl @ nl @ ''<back>'' @ nl)"

text \<open>
  The state after the table handler has written the opening of a table up to the title
  attribute's quote.
\<close>

definition tableTitleOpen :: "Ext \<Rightarrow> St \<Rightarrow> nid \<Rightarrow> St" where
  \<open>tableTitleOpen X s n =
     s\<lparr>W := W s @ ''<texttable''
          @ (if BlockAttrs X (T s n) \<noteq> [] then '' '' @ Join (BlockAttrs X (T s n)) '' '' else [])
          @ '' title="''\<rparr>\<close>

text \<open>
  A reading of the tags in a text: the texts between angle brackets (a bracket inside a
  quoted attribute value does not end a tag), of which declarations, comments and empty
  elements are dropped, and the check that each closing tag closes the element opened
  last.
\<close>

datatype xmlTag = OpenTag string | CloseTag string

datatype scan = Outside | InTag string | InQuote string

fun tagTexts :: "scan \<Rightarrow> string \<Rightarrow> string list" where
  "tagTexts m [] = []"
| "tagTexts Outside (c # cs) =
     (if c = CHR ''<'' then tagTexts (InTag []) cs else tagTexts Outside cs)"
| "tagTexts (InTag acc) (c # cs) =
     (if c = CHR ''>'' then acc # tagTexts Outside cs
      else if c = CHR 0x22 then tagTexts (InQuote (acc @ [c])) cs
      else tagTexts (InTag (acc @ [c])) cs)"
| "tagTexts (InQuote acc) (c # cs) =
     (if c = CHR 0x22 then tagTexts (InTag (acc @ [c])) cs
      else tagTexts (InQuote (acc @ [c])) cs)"

definition tagName :: "string \<Rightarrow> string" where
  "tagName t = takeWhile (\<lambda>c. c \<noteq> CHR '' '') t"

definition classify :: "string \<Rightarrow> xmlTag option" where
  "classify t =
     (case t of
        [] \<Rightarrow> None
      | c # cs \<Rightarrow>
          if c = CHR ''/'' then Some (CloseTag (tagName cs))
          else if c = CHR ''?'' \<or> c = CHR ''!'' then None
          else if last t = CHR ''/'' then None
          else Some (OpenTag (tagName t)))"

definition xmlTags :: "string \<Rightarrow> xmlTag list" where
  "xmlTags s = List.map_filter classify (tagTexts Outside s)"

fun wellNested :: "string list \<Rightarrow> xmlTag list \<Rightarrow> bool" where
  "wellNested stack [] = (stack = [])"
| "wellNested stack (OpenTag a # ts) = wellNested (a # stack) ts"
| "wellNested stack (CloseTag a # ts) =
     (case stack of [] \<Rightarrow> False | b # rest \<Rightarrow> a = b \<and> wellNested rest ts)"

text \<open>The text of the document header and the closing tag of a document matter region.\<close>

definition documentHeaderText :: string where
  \<open>documentHeaderText =
     ''<?xml version="1.0" encoding="utf-8"?>'' @ nl
     @ ''<!-- name="GENERATOR" content="github.com/mmarkdown/mmark markdown processor for Go" -->'' @ nl
     @ ''<!DOCTYPE rfc SYSTEM 'rfc2629.dtd' []>'' @ nl\<close>

definition matterCloseText :: "DocumentMatters \<Rightarrow> string" where
  "matterCloseText m =
     (case m of
        DocumentMatterNone \<Rightarrow> []
      | DocumentMatterFront \<Rightarrow> nl @ ''</front>'' @ nl
      | DocumentMatterMain \<Rightarrow> nl @ ''</middle>'' @ nl
      | DocumentMatterBack \<Rightarrow> nl @ ''</back>'' @ nl)"





text \<open>
  A state without a render hook, and a visitor that keeps to the bounds of a walk and
  never asks such a state's walk to terminate.
\<close>

definition quiet :: "St \<Rightarrow> bool" where
  "quiet s \<longleftrightarrow> RenderNodeHook (opts (R s)) = None"





text \<open>
  The visits that a walk has added to the log, and what a walk without a render hook keeps
  besides the bounds above: the title flag is set after it exactly when it was set before
  or a title node is among the visits added.
\<close>

definition newVisits :: "St \<Rightarrow> St \<Rightarrow> (nid \<times> bool) list" where
  "newVisits s s' = drop (length (Visits s)) (Visits s')"

definition titled :: "St \<Rightarrow> St \<Rightarrow> bool" where
  "titled s s' \<longleftrightarrow> extends s s'
     \<and> (title (R s') \<longleftrightarrow> title (R s) \<or> (\<exists>x \<in> set (newVisits s s'). data (T s (fst x)) = Title))"

definition walk_titled :: "(St \<Rightarrow> nid \<Rightarrow> Result) \<Rightarrow> bool" where
  "walk_titled walk \<longleftrightarrow> (\<forall>s n st s'. quiet s \<longrightarrow> walk s n = Inr (st, s') \<longrightarrow> titled s s')"

subsection \<open>Example inputs\<close>

text \<open>
  An instance of the external functions: the escaping of the four characters
  \<open>&\<close>, \<open><\<close>, \<open>>\<close> and the double quote, no block attributes, and the list flags
  as the first three bits.
\<close>

fun escapeStd :: "string \<Rightarrow> string" where
  "escapeStd [] = []"
| "escapeStd (c # cs) =
     (if c = CHR ''&'' then ''&amp;''
      else if c = CHR ''<'' then ''&lt;''
      else if c = CHR ''>'' then ''&gt;''
      else if c = CHR 0x22 then ''&quot;''
      else [c]) @ escapeStd cs"

definition exampleExt :: Ext where
  "exampleExt = \<lparr>EscapeHTML = escapeStd, BlockAttrs = (\<lambda>nd. []),
     IsAbstract = (\<lambda>b. b = ''abstract''), Is2119 = (\<lambda>b. b = ''MUST''),
     AttributesContains = (\<lambda>a attrs. False), titleBlock = (\<lambda>nd. ''<rfc>''),
     bibliography = (\<lambda>nd entering. []), bibliographyItem = (\<lambda>nd. []),
     EscapeHTMLCallouts = (\<lambda>ro b. escapeStd b), appendLanguageAttr = (\<lambda>attrs info. attrs),
     ListTypeOrdered = 1, ListTypeDefinition = 2, ListTypeTerm = 4\<rparr>"

definition exampleOptions :: "Flags \<Rightarrow> RendererOptions" where
  "exampleOptions f = \<lparr>CalloutPrefix = [], Flags = f, RenderNodeHook = None, Comments = None\<rparr>"

definition mkNode :: "NodeData \<Rightarrow> nid option \<Rightarrow> nid list \<Rightarrow> bool \<Rightarrow> Node" where
  "mkNode d p cs c = \<lparr>data = d, Parent = p, Children = cs, isContainer = c\<rparr>"

definition emptyTree :: Tree where
  "emptyTree = (\<lambda>i. mkNode (Other ''nil'') None [] False)"

definition exampleState :: "Flags \<Rightarrow> Tree \<Rightarrow> St" where
  "exampleState f t = \<lparr>W = [], R = NewRenderer (exampleOptions f), T = t, Visits = []\<rparr>"

definition matterTree :: Tree where
  "matterTree = emptyTree(0 := mkNode (DocumentMatter DocumentMatterMain) None [] True)"

definition imageTree :: Tree where
  "imageTree = emptyTree(0 := mkNode (Image ''a.png'' None) None [] True)"

definition linkTree :: Tree where
  "linkTree = emptyTree(0 := mkNode (Link ''http://a/?x=1&y=2'') None [] True)"

definition titleTree :: Tree where
  "titleTree = emptyTree(0 := mkNode Document None [1] True, 1 := mkNode Title (Some 0) [] False)"



definition exampleHeadings :: "Heading list" where
  "exampleHeadings =
     [\<lparr>HeadingID = ''intro'', Level = 1, IsSpecial = False, Literal = []\<rparr>,
      \<lparr>HeadingID = ''deep'', Level = 3, IsSpecial = False, Literal = []\<rparr>,
      \<lparr>HeadingID = ''top'', Level = 1, IsSpecial = False, Literal = []\<rparr>]"

section \<open>Properties\<close>

declare showNat.simps [simp del]

subsection \<open>What a walk preserves\<close>

lemma sectionClose_eq:
  "sectionClose X w r new =
     (w @ (case sectionR r of None \<Rightarrow> [] | Some cur \<Rightarrow> closeTag X cur @ nl), r\<lparr>sectionR := new\<rparr>)"
  by (simp add: sectionClose_def cr_def outs_def split: option.splits)

lemma frames_refl: "frames t t"
  by (simp add: frames_def)

lemma frames_trans: "frames a b \<Longrightarrow> frames b c \<Longrightarrow> frames a c"
proof -
  assume ab: "frames a b" and bc: "frames b c"
  have d: "\<And>m. data (b m) = data (a m)" using ab by (simp add: frames_def)
  have f: "(\<lambda>x. data (b x) \<noteq> Caption) = (\<lambda>x. data (a x) \<noteq> Caption)" using d by simp
  show ?thesis
    unfolding frames_def
  proof (intro allI conjI impI)
    fix m
    show "data (c m) = data (a m)" using ab bc by (simp add: frames_def)
    show "Parent (c m) = Parent (a m)" using ab bc by (simp add: frames_def)
    show "isContainer (c m) = isContainer (a m)" using ab bc by (simp add: frames_def)
    have "subseq (Children (c m)) (Children (b m))" using bc by (simp add: frames_def)
    moreover have "subseq (Children (b m)) (Children (a m))" using ab by (simp add: frames_def)
    ultimately show "subseq (Children (c m)) (Children (a m))" using subseq_order.trans by blast
  next
    fix m
    assume nc: "data (a m) \<noteq> Caption"
    then have "data (b m) \<noteq> Caption" using d by simp
    then have "filter (\<lambda>x. data (b x) \<noteq> Caption) (Children (c m))
        = filter (\<lambda>x. data (b x) \<noteq> Caption) (Children (b m))"
      using bc by (simp add: frames_def)
    moreover have "filter (\<lambda>x. data (a x) \<noteq> Caption) (Children (b m))
        = filter (\<lambda>x. data (a x) \<noteq> Caption) (Children (a m))"
      using ab nc by (simp add: frames_def)
    ultimately show "filter (\<lambda>x. data (a x) \<noteq> Caption) (Children (c m))
        = filter (\<lambda>x. data (a x) \<noteq> Caption) (Children (a m))"
      unfolding f by simp
  qed
qed

lemma extends_refl: "extends s s" by (simp add: extends_def frames_refl)
lemma extends_trans: "extends a b \<Longrightarrow> extends b c \<Longrightarrow> extends a c"
proof -
  assume ab: "extends a b" and bc: "extends b c"
  have 1: "prefix (W a) (W c)" using ab bc prefix_order.trans unfolding extends_def by blast
  have 2: "prefix (Visits a) (Visits c)" using ab bc prefix_order.trans unfolding extends_def by blast
  have 3: "frames (T a) (T c)" using ab bc frames_trans unfolding extends_def by blast
  show ?thesis using ab bc 1 2 3 by (simp add: extends_def)
qed

lemma subseq_remove1: "subseq (remove1 x xs) xs"
  by (induction xs) auto

lemma filter_remove1_other: "\<not> P x \<Longrightarrow> filter P (remove1 x xs) = filter P xs"
  by (induction xs) auto

lemma frames_RemoveFromTree:
  assumes "data (t n) = Caption"
  shows "frames t (RemoveFromTree t n)"
proof (cases "Parent (t n)")
  case None
  then show ?thesis by (simp add: RemoveFromTree_def frames_refl)
next
  case (Some p)
  let ?t1 = "t(n := (t n)\<lparr>Children := []\<rparr>)"
  have f1: "frames t ?t1" using assms by (simp add: frames_def)
  show ?thesis
  proof (cases "n \<in> set (Children (?t1 p))")
    case False
    then show ?thesis using Some f1 by (simp add: RemoveFromTree_def Let_def)
  next
    case True
    have "frames ?t1 (?t1(p := (?t1 p)\<lparr>Children := remove1 n (Children (?t1 p))\<rparr>))"
      using assms by (simp add: frames_def subseq_remove1 filter_remove1_other)
    then have "frames t (?t1(p := (?t1 p)\<lparr>Children := remove1 n (Children (?t1 p))\<rparr>))"
      using f1 frames_trans by blast
    then show ?thesis using Some True by (simp add: RemoveFromTree_def Let_def)
  qed
qed

lemma extends_data: "extends s s' \<Longrightarrow> data (T s' m) = data (T s m)"
  by (simp add: extends_def frames_def)

lemma firstCaption_Some: "firstCaption t cs = Some c \<Longrightarrow> data (t c) = Caption"
  by (induction t cs rule: firstCaption.induct) (auto split: if_splits)

lemma table_enter_figure:
  "parentData (T s) n = Some CaptionFigure \<Longrightarrow>
   table X walk s n True =
     (case firstCaption (T s) (Children (T s (the (Parent (T s n))))) of
        None \<Rightarrow> Inr (tableTitleOpen X s n)
      | Some caption \<Rightarrow>
          (case walk (tableTitleOpen X s n) caption of
             Inl e \<Rightarrow> Inl e
           | Inr (status, s2) \<Rightarrow> Inr (s2\<lparr>T := RemoveFromTree (T s2) caption\<rparr>)))"
  by (auto simp: table_def Let_def tableTitleOpen_def outs_def split: option.splits sum.splits)

lemma Walk_extends:
  shows "visitor_ok v \<Longrightarrow> Walk k v s n = Inr (st, s') \<Longrightarrow> extends s s'"
    and "visitor_ok v \<Longrightarrow> WalkChildren k v s cs = Inr (st, s') \<Longrightarrow> extends s s'"
proof (induction k v s n and k v s cs arbitrary: st s' and st s' rule: Walk_WalkChildren.induct)
  case (1 visitor s n)
  then show ?case by simp
next
  case (2 k visitor s n)
  note ok = "2.prems"(1) and run = "2.prems"(2)
  from run obtain status s1 where v1: "visitor s n True = Inr (status, s1)"
    by (auto split: sum.splits)
  have e1: "extends s s1" using ok v1 by (auto simp: visitor_ok_def)
  have vok: "\<And>a b c d. visitor a n b = Inr (c, d) \<Longrightarrow> extends a d"
    using ok by (auto simp: visitor_ok_def)
  have ih: "\<And>st2 s2. status \<noteq> Terminate \<Longrightarrow> isContainer (T s n) \<and> status \<noteq> SkipChildren \<Longrightarrow>
      WalkChildren k visitor s1 (Children (T s1 n)) = Inr (st2, s2) \<Longrightarrow> extends s1 s2"
    using "2.IH"[OF v1 refl _ _ ok] by blast
  have exit_step: "\<And>sa stx sx. extends s sa \<Longrightarrow> visitor sa n False = Inr (stx, sx) \<Longrightarrow> extends s sx"
    using vok extends_trans by blast
  show ?case
  proof (cases "status = Terminate")
    case True
    show ?thesis
    proof (cases "isContainer (T s n)")
      case C: True
      from run v1 True C obtain stx where "visitor s1 n False = Inr (stx, s')"
        by (simp split: sum.splits prod.splits)
      then show ?thesis using exit_step[OF e1] by blast
    next
      case C: False
      from run v1 True C have "s' = s1" by simp
      then show ?thesis using e1 by simp
    qed
  next
    case False
    define mid where "mid = (if isContainer (T s n) \<and> status \<noteq> SkipChildren
                   then WalkChildren k visitor s1 (Children (T s1 n))
                   else Inr (GoToNext, s1))"
    from run v1 False obtain st2 s2 where m: "mid = Inr (st2, s2)"
      unfolding mid_def by (simp split: sum.splits prod.splits)
    have e2: "extends s s2"
    proof (cases "isContainer (T s n) \<and> status \<noteq> SkipChildren")
      case True
      then have "WalkChildren k visitor s1 (Children (T s1 n)) = Inr (st2, s2)"
        using m by (simp add: mid_def)
      then have "extends s1 s2" using ih[OF False True] by blast
      then show ?thesis using e1 extends_trans by blast
    next
      case F2: False
      then have "s2 = s1" using m by (auto simp: mid_def split: if_splits)
      then show ?thesis using e1 by simp
    qed
    have run2: "(if st2 = Terminate then Inr (Terminate, s2)
                 else if isContainer (T s n) then
                   (case visitor s2 n False of
                      Inl e \<Rightarrow> Inl e
                    | Inr (status3, s3) \<Rightarrow>
                        Inr (if status3 = Terminate then Terminate else GoToNext, s3))
                 else Inr (GoToNext, s2)) = Inr (st, s')"
      using run v1 False m unfolding mid_def by simp
    show ?thesis
    proof (cases "st2 \<noteq> Terminate \<and> isContainer (T s n)")
      case True
      with run2 obtain stx where "visitor s2 n False = Inr (stx, s')"
        by (simp split: sum.splits prod.splits)
      then show ?thesis using exit_step[OF e2] by blast
    next
      case False
      with run2 have "s' = s2" by (auto split: if_splits)
      then show ?thesis using e2 by simp
    qed
  qed
next
  case (3 k visitor s)
  then show ?case by (simp add: extends_refl)
next
  case (4 k visitor s c cs)
  note ok = "4.prems"(1) and run = "4.prems"(2)
  from run obtain status s1 where w1: "Walk k visitor s c = Inr (status, s1)"
    by (auto split: sum.splits)
  have e1: "extends s s1" using "4.IH"(1)[OF ok w1] .
  show ?case
  proof (cases "status = Terminate")
    case True
    then show ?thesis using run w1 e1 by auto
  next
    case False
    then have "WalkChildren k visitor s1 cs = Inr (st, s')" using run w1 by auto
    then have "extends s1 s'" using "4.IH"(2)[OF w1 refl False ok] by blast
    then show ?thesis using e1 extends_trans by blast
  qed
qed

lemmas writer_defs = outs_def out_def cr_def outOneOf_def outOneOfCr_def outTag_def hardBreak_def

lemma prefix_text_node: "prefix w (text_node X w t n lit)"
  by (simp add: text_node_def writer_defs Let_def split: option.splits NodeData.splits)

lemma prefix_strong: "prefix w (strong X w t n e)"
  by (simp add: strong_def writer_defs split: option.splits NodeData.splits)

lemma prefix_citationLoop: "citationLoop w i ds ts = Inr w' \<Longrightarrow> prefix w w'"
proof (induction w i ds ts rule: citationLoop.induct)
  case (1 w i types)
  then show ?case by simp
next
  case (2 w i c cs types)
  then show ?case
    by (auto simp: writer_defs split: if_splits dest: append_prefixD)
qed

lemma prefix_citation: "citation w ds ts e = Inr w' \<Longrightarrow> prefix w w'"
  by (auto simp: citation_def split: if_splits dest: prefix_citationLoop)

lemma prefix_paragraph: "prefix w (paragraph_node X w t n e)"
  by (simp add: paragraph_node_def paragraphEnter_def paragraphExit_def writer_defs Let_def)

lemma prefix_list: "prefix w (list_node X w t n d e)"
  by (simp add: list_node_def listEnter_def listExit_def paragraphEnter_def paragraphExit_def
      writer_defs Let_def split: option.splits NodeData.splits)

lemma prefix_listItem: "prefix w (listItem X w f rl e)"
  by (simp add: listItem_def listItemEnter_def listItemExit_def writer_defs Let_def)

lemma prefix_codeBlock: "prefix w (codeBlock X w r t n l i)"
  by (simp add: codeBlock_def writer_defs Let_def)

lemma prefix_tableCell: "prefix w (tableCell w t n h a e)"
  by (simp add: tableCell_def writer_defs Let_def)

lemma prefix_misc:
  "prefix w (tableBody w e)" "prefix w (htmlSpan w r l)" "prefix w (callout w i)"
  "prefix w (crossReference w d e)" "prefix w (index X w it p su)" "prefix w (link X w d e)"
  "prefix w (image_node X w d tt e)" "prefix w (code X w l)" "prefix w (mathBlock X w r l)"
  by (simp_all add: tableBody_def htmlSpan_def callout_def crossReference_def index_def link_def
      image_node_def imageEnter_def imageExit_def code_def mathBlock_def writer_defs Let_def
      split: option.splits)

lemma matter_eq:
  "matter X w r m =
     (w @ (case sectionR r of None \<Rightarrow> [] | Some cur \<Rightarrow> closeTag X cur @ nl)
        @ (case m of DocumentMatterNone \<Rightarrow> []
           | DocumentMatterFront \<Rightarrow> nl @ ''<front>'' @ nl
           | DocumentMatterMain \<Rightarrow> nl @ ''</front>'' @ nl @ nl @ ''<middle>'' @ nl
           | DocumentMatterBack \<Rightarrow> nl @ ''</middle>'' @ nl @ nl @ ''<back>'' @ nl),
      r\<lparr>sectionR := None, documentMatter := m\<rparr>)"
  by (simp add: matter_def sectionClose_eq writer_defs split: DocumentMatters.splits)

lemma headingEnter_props:
  "headingEnter X w r h = (w', r') \<Longrightarrow>
     prefix w w' \<and> opts r' = opts r \<and> title r' = title r \<and> documentMatter r' = documentMatter r
       \<and> sectionR r' = sectionR r"
  by (auto simp: headingEnter_def ensureUniqueHeadingID_def writer_defs Let_def
      split: if_splits option.splits prod.splits)

lemma heading_props:
  "heading X w r h e = (w', r') \<Longrightarrow>
     prefix w w' \<and> opts r' = opts r \<and> title r' = title r \<and> documentMatter r' = documentMatter r"
  by (auto simp: heading_def headingExit_def sectionClose_eq writer_defs Let_def
      split: if_splits prod.splits dest!: headingEnter_props dest: append_prefixD)

lemma extends_W: "prefix (W s) w \<Longrightarrow> extends s (s\<lparr>W := w\<rparr>)"
  by (simp add: extends_def frames_refl)

lemma extends_T: "frames (T s) t \<Longrightarrow> extends s (s\<lparr>T := t\<rparr>)"
  by (simp add: extends_def)

lemma captionLoop_extends:
  "walk_ok walk \<Longrightarrow> captionLoop walk s cs = Inr s' \<Longrightarrow> extends s s'"
proof (induction walk s cs rule: captionLoop.induct)
  case (1 walk s)
  then show ?case by (simp add: extends_refl)
next
  case (2 walk s child rest)
  show ?case
  proof (cases "data (T s child) = Caption")
    case True
    with "2.prems"(2) obtain status s1 where w1: "walk s child = Inr (status, s1)"
      by (auto split: sum.splits)
    have e1: "extends s s1" using "2.prems"(1) w1 by (auto simp: walk_ok_def)
    have "data (T s1 child) = Caption" using True extends_data[OF e1] by simp
    then have e2: "extends s1 (s1\<lparr>T := RemoveFromTree (T s1) child\<rparr>)"
      by (simp add: extends_T frames_RemoveFromTree)
    have "captionLoop walk (s1\<lparr>T := RemoveFromTree (T s1) child\<rparr>) rest = Inr s'"
      using "2.prems"(2) True w1 by simp
    then have "extends (s1\<lparr>T := RemoveFromTree (T s1) child\<rparr>) s'"
      using "2.IH"(1)[OF True w1 refl "2.prems"(1)] by blast
    then show ?thesis using e1 e2 extends_trans by blast
  next
    case False
    then show ?thesis using "2.IH"(2) "2.prems" by simp
  qed
qed

lemma captionFigure_extends:
  "walk_ok walk \<Longrightarrow> captionFigure walk s n e = Inr s' \<Longrightarrow> extends s s'"
proof -
  assume ok: "walk_ok walk" and run: "captionFigure walk s n e = Inr s'"
  show ?thesis
  proof (cases "hasTable (T s) (Children (T s n))")
    case True
    then show ?thesis using run by (simp add: captionFigure_def extends_refl)
  next
    case False
    show ?thesis
    proof (cases e)
      case True
      let ?s0 = "s\<lparr>W := outs (outs (W s) ''<figure'') (CHR '' '' # ''title='' @ [CHR 0x22])\<rparr>"
      have "captionLoop walk ?s0 (Children (T s n)) = Inr s'"
        using run False True by (simp add: captionFigure_def)
      then have "extends ?s0 s'" using captionLoop_extends[OF ok] by blast
      moreover have "extends s ?s0" by (simp add: extends_W writer_defs)
      ultimately show ?thesis using extends_trans by blast
    next
      case F: False
      then show ?thesis using run False by (auto simp: captionFigure_def extends_W writer_defs)
    qed
  qed
qed

lemma table_extends:
  "walk_ok walk \<Longrightarrow> table X walk s n e = Inr s' \<Longrightarrow> extends s s'"
proof -
  assume ok: "walk_ok walk" and run: "table X walk s n e = Inr s'"
  have pre: "\<And>u. extends s (s\<lparr>W := W s @ u\<rparr>)" by (simp add: extends_W)
  show ?thesis
  proof (cases "e \<and> parentData (T s) n = Some CaptionFigure")
    case False
    then show ?thesis using run pre
      by (auto simp: table_def Let_def writer_defs split: if_splits)
  next
    case True
    then have e: e and pc: "parentData (T s) n = Some CaptionFigure" by simp_all
    let ?s1 = "tableTitleOpen X s n"
    have e0: "extends s ?s1" using pre by (simp add: tableTitleOpen_def)
    note r = run[unfolded] table_enter_figure[OF pc, of X walk]
    show ?thesis
    proof (cases "firstCaption (T s) (Children (T s (the (Parent (T s n)))))")
      case None
      then show ?thesis using r e e0 by simp
    next
      case (Some c)
      with r e obtain status s2 where w: "walk ?s1 c = Inr (status, s2)"
        and s': "s' = s2\<lparr>T := RemoveFromTree (T s2) c\<rparr>"
        by (auto split: sum.splits)
      have e1: "extends ?s1 s2" using ok w by (auto simp: walk_ok_def)
      have "data (T ?s1 c) = Caption" using firstCaption_Some[OF Some] by (simp add: tableTitleOpen_def)
      then have "data (T s2 c) = Caption" using extends_data[OF e1] by simp
      then have "extends s2 s'" unfolding s' by (simp add: extends_T frames_RemoveFromTree)
      then show ?thesis using e0 e1 extends_trans by blast
    qed
  qed
qed

lemma simple_extends: "prefix (W s) w \<Longrightarrow> simple s w = Inr (st, s') \<Longrightarrow> extends s s'"
  by (auto simp: simple_def extends_W)

lemma lifted_extends:
  "(\<And>s'. x = Inr s' \<Longrightarrow> extends s s') \<Longrightarrow> lifted x = Inr (st, s') \<Longrightarrow> extends s s'"
  by (auto simp: lifted_def split: sum.splits)

lemma extends_WR:
  "prefix (W s) w \<Longrightarrow> opts r = opts (R s) \<Longrightarrow> (title (R s) \<longrightarrow> title r)
     \<Longrightarrow> extends s (s\<lparr>W := w, R := r\<rparr>)"
  by (simp add: extends_def frames_refl)

lemma dispatch_extends:
  assumes ok: "walk_ok walk" and run: "dispatch walk X s n e = Inr (st, s')"
  shows "extends s s'"
proof (cases "data (T s n)")
  case (Citation ds ts)
  then show ?thesis using run
    by (auto simp: dispatch_def Let_def split: sum.splits dest!: prefix_citation intro: simple_extends)
next
  case (DocumentMatter m)
  then show ?thesis using run
    by (auto simp: dispatch_def Let_def matter_eq simple_def extends_refl extends_W
        intro!: extends_WR split: if_splits)
next
  case (HeadingNode h)
  then show ?thesis using run
    by (auto simp: dispatch_def Let_def split: prod.splits dest!: heading_props intro!: extends_WR)
next
  case CaptionFigure
  then show ?thesis using run captionFigure_extends[OF ok]
    by (auto simp: dispatch_def Let_def lifted_def split: sum.splits)
next
  case Table
  then show ?thesis using run table_extends[OF ok]
    by (auto simp: dispatch_def Let_def lifted_def split: sum.splits)
next
  case Title
  then show ?thesis using run
    by (auto simp: dispatch_def Let_def intro!: extends_WR)
next
  case (Image d tt)
  then show ?thesis using run
    by (auto simp: dispatch_def Let_def extends_refl prefix_misc simple_def extends_W split: if_splits)
next
  case (Index a b c)
  then show ?thesis using run
    by (auto simp: dispatch_def Let_def extends_refl prefix_misc simple_def extends_W split: if_splits)
qed (use run in \<open>auto simp: dispatch_def Let_def simple_def writer_defs prefix_misc prefix_text_node
      prefix_strong prefix_paragraph prefix_list prefix_listItem prefix_codeBlock prefix_tableCell
      extends_refl tagWithAttributes_def intro!: extends_W\<close>)

lemma RenderNodeBody_ok: "walk_ok walk \<Longrightarrow> visitor_ok (RenderNodeBody walk X)"
proof -
  assume ok: "walk_ok walk"
  have v: "\<And>s x. extends s (s\<lparr>Visits := Visits s @ [x]\<rparr>)"
    by (simp add: extends_def frames_refl)
  have vw: "\<And>s x u. extends s (s\<lparr>Visits := Visits s @ [x], W := W s @ u\<rparr>)"
    by (simp add: extends_def frames_refl)
  show ?thesis
    unfolding visitor_ok_def
  proof (intro allI impI)
    fix s n e st s'
    assume run: "RenderNodeBody walk X s n e = Inr (st, s')"
    show "extends s s'"
    proof (cases "RenderNodeHook (opts (R s))")
      case None
      then have "dispatch walk X (s\<lparr>Visits := Visits s @ [(n, e)]\<rparr>) n e = Inr (st, s')"
        using run by (simp add: RenderNodeBody_def Let_def)
      then show ?thesis using dispatch_extends[OF ok] v extends_trans by blast
    next
      case (Some hook)
      obtain written status didHandle where h: "hook (T s) n e = (written, status, didHandle)"
        by (cases "hook (T s) n e") auto
      show ?thesis
      proof (cases didHandle)
        case True
        then have "s' = s\<lparr>Visits := Visits s @ [(n, e)], W := W s @ written\<rparr>"
          using run Some h by (simp add: RenderNodeBody_def Let_def)
        then show ?thesis using vw by simp
      next
        case False
        then have "dispatch walk X (s\<lparr>Visits := Visits s @ [(n, e)], W := W s @ written\<rparr>) n e = Inr (st, s')"
          using run Some h by (simp add: RenderNodeBody_def Let_def)
        then show ?thesis using dispatch_extends[OF ok] vw extends_trans by blast
      qed
    qed
  qed
qed

lemma Walk_ok: "visitor_ok v \<Longrightarrow> walk_ok (Walk k v)"
  unfolding walk_ok_def using Walk_extends(1) by blast

lemma RenderNode_ok: "visitor_ok (RenderNode k X)"
proof (induction k)
  case 0
  show ?case by (simp add: RenderNodeBody_ok walk_ok_def)
next
  case (Suc k)
  then show ?case by (simp add: RenderNodeBody_ok Walk_ok)
qed

subsection \<open>The dispatcher and the render hook\<close>

lemma RenderNode_unfold: "RenderNode k X = RenderNodeBody (nestedWalk k X) X"
  by (cases k) (simp_all add: nestedWalk_def)

lemma RenderNodeBody_hook:
  "hookOutcome s n e = (written, status, didHandle) \<Longrightarrow>
   RenderNodeBody walk X s n e =
     (if didHandle then Inr (status, visited s n e written)
      else dispatch walk X (visited s n e written) n e)"
  by (auto simp: RenderNodeBody_def hookOutcome_def visited_def Let_def split: option.splits)

lemma RenderNode_unhandled:
  "hookOutcome s n e = (written, status, False) \<Longrightarrow>
   RenderNode k X s n e = dispatch (nestedWalk k X) X (visited s n e written) n e"
  using RenderNodeBody_hook[of s n e written status False "nestedWalk k X" X]
  by (simp add: RenderNode_unfold)

lemma visited_simps [simp]:
  "W (visited s n e u) = W s @ u" "R (visited s n e u) = R s" "T (visited s n e u) = T s"
  "Visits (visited s n e u) = Visits s @ [(n, e)]"
  by (simp_all add: visited_def)

lemma link_eq:
  \<open>link X w dest entering = w @ ''<eref target="'' @ EscapeHTML X dest @ ''"></iref>''\<close>
  by (simp add: link_def writer_defs)

subsection \<open>Headings in sequence\<close>

lemma occ_close:
  "occurrences ''</section>'' (sectionCloseText X r) = (if sectionOpen r then 1 else 0)"
  by (simp add: sectionCloseText_def sectionOpen_def closeTag_def nl_def split: option.splits)

lemma renderHeadings_snoc:
  "renderHeadings X wr (hs @ [h]) =
     (let (w0, r0) = renderHeadings X wr hs;
          (w1, r1) = heading X w0 r0 h True
      in heading X w1 r1 h False)"
  by (induction hs arbitrary: wr) (auto simp: Let_def split: prod.splits)

lemma heading_enter_section:
  "heading X w r h True = (w', r') \<Longrightarrow> sectionR r' = Some h"
  by (auto simp: heading_def sectionClose_eq split: prod.splits dest!: headingEnter_props)

lemma heading_exit_eq: "heading X w r h False = (w @ nl, r)"
  by (simp add: heading_def headingExit_def writer_defs)

lemma sectionOpen_after:
  "hs \<noteq> [] \<Longrightarrow> sectionOpen (snd (renderHeadings X wr hs)) = (\<not> IsSpecial (last hs))"
proof (induction hs rule: rev_induct)
  case Nil
  then show ?case by simp
next
  case (snoc h hs)
  obtain w0 r0 where a: "renderHeadings X wr hs = (w0, r0)" by (cases "renderHeadings X wr hs")
  obtain w1 r1 where b: "heading X w0 r0 h True = (w1, r1)" by (cases "heading X w0 r0 h True")
  have "sectionR r1 = Some h" using heading_enter_section[OF b] .
  then show ?case
    by (simp add: renderHeadings_snoc a b heading_exit_eq sectionOpen_def)
qed

subsection \<open>Errors of the handlers\<close>


lemma citationLoop_returns:
  "i + length ds \<le> length ts \<Longrightarrow> \<exists>w'. citationLoop w i ds ts = Inr w'"
  by (induction w i ds ts rule: citationLoop.induct) auto





subsection \<open>The tags of a link\<close>

lemma tagTexts_quote:
  "CHR 0x22 \<notin> set e \<Longrightarrow>
   tagTexts (InQuote acc) (e @ CHR 0x22 # rest) = tagTexts (InTag (acc @ e @ [CHR 0x22])) rest"
  by (induction e arbitrary: acc) auto

lemma mismatch_not_nested:
  "a \<noteq> b \<Longrightarrow> \<not> wellNested stack (before @ OpenTag a # CloseTag b # after)"
proof (induction before arbitrary: stack)
  case Nil
  then show ?case by simp
next
  case (Cons t before)
  then show ?case by (cases t) (auto split: list.splits)
qed

lemma link_tags:
  assumes "CHR 0x22 \<notin> set e"
  shows \<open>xmlTags (''<eref target="'' @ e @ ''"></iref>'') = [OpenTag ''eref'', CloseTag ''iref'']\<close>
proof -
  have \<open>tagTexts Outside (''<eref target="'' @ e @ ''"></iref>'')
        = tagTexts (InQuote ''eref target="'') (e @ CHR 0x22 # ''></iref>'')\<close>
    by simp
  also have \<open>\<dots> = tagTexts (InTag (''eref target="'' @ e @ [CHR 0x22])) ''></iref>''\<close>
    using tagTexts_quote[OF assms] by simp
  also have \<open>\<dots> = [''eref target="'' @ e @ [CHR 0x22], ''/iref'']\<close>
    by simp
  finally show ?thesis
    by (simp add: xmlTags_def List.map_filter_simps classify_def tagName_def)
qed

subsection \<open>Header and footer texts\<close>

lemma RenderHeader_eq:
  "RenderHeader w r = (if Flags (opts r) AND XMLFragment \<noteq> 0 then w else w @ documentHeaderText)"
  by (simp add: RenderHeader_def writeDocumentHeader_def documentHeaderText_def writer_defs)

lemma RenderFooter_eq:
  "RenderFooter X w r =
     (w @ sectionCloseText X r @ matterCloseText (documentMatter r)
        @ (if title r then nl @ ''</rfc>'' else []),
      r\<lparr>sectionR := None\<rparr>)"
  by (simp add: RenderFooter_def sectionClose_eq sectionCloseText_def writer_defs matterCloseText_def
      split: DocumentMatters.splits)

subsection \<open>Decimal suffixes and the allocator\<close>














subsection \<open>Walks without a render hook\<close>


lemma quiet_extends: "extends s s' \<Longrightarrow> quiet s \<Longrightarrow> quiet s'"
  by (simp add: quiet_def extends_def)









lemma hasTable_iff: "hasTable t cs \<longleftrightarrow> (\<exists>x \<in> set cs. data (t x) = Table)"
  by (induction t cs rule: hasTable.induct) auto










lemma extends_container: "extends s s' \<Longrightarrow> isContainer (T s' m) = isContainer (T s m)"
  by (simp add: extends_def frames_def)













subsection \<open>The title flag\<close>

lemma titled_extends: "titled s s' \<Longrightarrow> extends s s'"
  by (simp add: titled_def)

lemma titled_refl: "titled s s"
  by (simp add: titled_def extends_refl newVisits_def)

lemma newVisits_trans:
  "extends a b \<Longrightarrow> extends b c \<Longrightarrow> newVisits a c = newVisits a b @ newVisits b c"
  by (auto simp: extends_def newVisits_def prefix_def)

lemma titled_trans: "titled a b \<Longrightarrow> titled b c \<Longrightarrow> titled a c"
proof -
  assume ab: "titled a b" and bc: "titled b c"
  have e: "extends a b" "extends b c" using ab bc by (simp_all add: titled_def)
  have d: "\<And>m. data (T b m) = data (T a m)" using extends_data[OF e(1)] .
  have "extends a c" using e extends_trans by blast
  moreover have "title (R c) \<longleftrightarrow> title (R a) \<or> (\<exists>x \<in> set (newVisits a c). data (T a (fst x)) = Title)"
    using ab bc unfolding titled_def newVisits_trans[OF e] d by auto
  ultimately show ?thesis by (simp add: titled_def)
qed

lemma titled_same:
  "extends s s' \<Longrightarrow> title (R s') = title (R s) \<Longrightarrow> Visits s' = Visits s \<Longrightarrow> titled s s'"
  by (simp add: titled_def newVisits_def)

lemma Walk_rel:
  assumes r: "\<And>s. P s s" and t: "\<And>a b c. P a b \<Longrightarrow> P b c \<Longrightarrow> P a c"
    and pq: "\<And>a b. P a b \<Longrightarrow> Q a \<Longrightarrow> Q b"
  shows "(\<forall>s n e st s'. Q s \<longrightarrow> v s n e = Inr (st, s') \<longrightarrow> P s s') \<Longrightarrow> Q s \<Longrightarrow>
           Walk k v s n = Inr (st, s') \<Longrightarrow> P s s'"
    and "(\<forall>s n e st s'. Q s \<longrightarrow> v s n e = Inr (st, s') \<longrightarrow> P s s') \<Longrightarrow> Q s \<Longrightarrow>
           WalkChildren k v s cs = Inr (st, s') \<Longrightarrow> P s s'"
proof (induction k v s n and k v s cs arbitrary: st s' and st s' rule: Walk_WalkChildren.induct)
  case (1 visitor s n)
  then show ?case by simp
next
  case (2 k visitor s n)
  note ok = "2.prems"(1) and q = "2.prems"(2) and run = "2.prems"(3)
  have vok: "\<And>a m b c d. Q a \<Longrightarrow> visitor a m b = Inr (c, d) \<Longrightarrow> P a d" using ok by blast
  from run obtain status s1 where v1: "visitor s n True = Inr (status, s1)"
    by (auto split: sum.splits)
  have e1: "P s s1" using vok[OF q v1] .
  have q1: "Q s1" using pq[OF e1 q] .
  have exit_step: "\<And>sa stx sx. P s sa \<Longrightarrow> visitor sa n False = Inr (stx, sx) \<Longrightarrow> P s sx"
    using vok t pq q by blast
  show ?case
  proof (cases "status = Terminate")
    case True
    show ?thesis
    proof (cases "isContainer (T s n)")
      case C: True
      from run v1 True C obtain stx where "visitor s1 n False = Inr (stx, s')"
        by (simp split: sum.splits prod.splits)
      then show ?thesis using exit_step[OF e1] by blast
    next
      case C: False
      from run v1 True C have "s' = s1" by simp
      then show ?thesis using e1 by simp
    qed
  next
    case False
    define mid where "mid = (if isContainer (T s n) \<and> status \<noteq> SkipChildren
                   then WalkChildren k visitor s1 (Children (T s1 n))
                   else Inr (GoToNext, s1))"
    from run v1 False obtain st2 s2 where m: "mid = Inr (st2, s2)"
      unfolding mid_def by (simp split: sum.splits prod.splits)
    have e2: "P s s2"
    proof (cases "isContainer (T s n) \<and> status \<noteq> SkipChildren")
      case True
      then have "WalkChildren k visitor s1 (Children (T s1 n)) = Inr (st2, s2)"
        using m by (simp add: mid_def)
      then have "P s1 s2" using "2.IH"[OF v1 refl False True ok q1] by blast
      then show ?thesis using e1 t by blast
    next
      case F2: False
      then have "s2 = s1" using m by (auto simp: mid_def split: if_splits)
      then show ?thesis using e1 by simp
    qed
    have run2: "(if st2 = Terminate then Inr (Terminate, s2)
                 else if isContainer (T s n) then
                   (case visitor s2 n False of
                      Inl e \<Rightarrow> Inl e
                    | Inr (status3, s3) \<Rightarrow>
                        Inr (if status3 = Terminate then Terminate else GoToNext, s3))
                 else Inr (GoToNext, s2)) = Inr (st, s')"
      using run v1 False m unfolding mid_def by simp
    show ?thesis
    proof (cases "st2 \<noteq> Terminate \<and> isContainer (T s n)")
      case True
      with run2 obtain stx where "visitor s2 n False = Inr (stx, s')"
        by (simp split: sum.splits prod.splits)
      then show ?thesis using exit_step[OF e2] by blast
    next
      case False
      with run2 have "s' = s2" by (auto split: if_splits)
      then show ?thesis using e2 by simp
    qed
  qed
next
  case (3 k visitor s)
  then show ?case by (simp add: r)
next
  case (4 k visitor s c cs)
  note ok = "4.prems"(1) and q = "4.prems"(2) and run = "4.prems"(3)
  from run obtain status s1 where w1: "Walk k visitor s c = Inr (status, s1)"
    by (auto split: sum.splits)
  have e1: "P s s1" using "4.IH"(1)[OF ok q w1] .
  have q1: "Q s1" using pq[OF e1 q] .
  show ?case
  proof (cases "status = Terminate")
    case True
    then show ?thesis using run w1 e1 by auto
  next
    case False
    then have "WalkChildren k visitor s1 cs = Inr (st, s')" using run w1 by auto
    then have "P s1 s'" using "4.IH"(2)[OF w1 refl False ok q1] by blast
    then show ?thesis using e1 t by blast
  qed
qed

lemma titled_quiet: "titled s s' \<Longrightarrow> quiet s \<Longrightarrow> quiet s'"
  using quiet_extends titled_extends by blast

lemma titled_W: "prefix (W s) w \<Longrightarrow> titled s (s\<lparr>W := w\<rparr>)"
  by (rule titled_same) (simp_all add: extends_W)

lemma titled_T: "frames (T s) t \<Longrightarrow> titled s (s\<lparr>T := t\<rparr>)"
  by (rule titled_same) (simp_all add: extends_T)

lemma captionLoop_titled:
  "walk_titled walk \<Longrightarrow> quiet s \<Longrightarrow> captionLoop walk s cs = Inr s' \<Longrightarrow> titled s s'"
proof (induction walk s cs rule: captionLoop.induct)
  case (1 walk s)
  then show ?case by (simp add: titled_refl)
next
  case (2 walk s child rest)
  show ?case
  proof (cases "data (T s child) = Caption")
    case True
    with "2.prems"(3) obtain status s1 where w1: "walk s child = Inr (status, s1)"
      by (auto split: sum.splits)
    have e1: "titled s s1" using "2.prems"(1,2) w1 by (auto simp: walk_titled_def)
    have "data (T s1 child) = Caption" using True extends_data[OF titled_extends[OF e1]] by simp
    then have e2: "titled s1 (s1\<lparr>T := RemoveFromTree (T s1) child\<rparr>)"
      by (simp add: titled_T frames_RemoveFromTree)
    have q2: "quiet (s1\<lparr>T := RemoveFromTree (T s1) child\<rparr>)"
      using titled_quiet[OF e2 titled_quiet[OF e1 "2.prems"(2)]] .
    have "captionLoop walk (s1\<lparr>T := RemoveFromTree (T s1) child\<rparr>) rest = Inr s'"
      using "2.prems"(3) True w1 by simp
    then have "titled (s1\<lparr>T := RemoveFromTree (T s1) child\<rparr>) s'"
      using "2.IH"(1)[OF True w1 refl "2.prems"(1) q2] by blast
    then show ?thesis using e1 e2 titled_trans by blast
  next
    case False
    then show ?thesis using "2.IH"(2) "2.prems" by simp
  qed
qed

lemma captionFigure_titled:
  "walk_titled walk \<Longrightarrow> quiet s \<Longrightarrow> captionFigure walk s n e = Inr s' \<Longrightarrow> titled s s'"
proof -
  assume ok: "walk_titled walk" and q: "quiet s" and run: "captionFigure walk s n e = Inr s'"
  show ?thesis
  proof (cases "hasTable (T s) (Children (T s n))")
    case True
    then show ?thesis using run by (simp add: captionFigure_def titled_refl)
  next
    case False
    show ?thesis
    proof (cases e)
      case True
      let ?opn = "s\<lparr>W := outs (outs (W s) ''<figure'') (CHR '' '' # ''title='' @ [CHR 0x22])\<rparr>"
      have e0: "titled s ?opn" by (simp add: titled_W writer_defs)
      have "captionLoop walk ?opn (Children (T s n)) = Inr s'"
        using run False True by (simp add: captionFigure_def)
      then have "titled ?opn s'" using captionLoop_titled[OF ok titled_quiet[OF e0 q]] by blast
      then show ?thesis using e0 titled_trans by blast
    next
      case F: False
      then show ?thesis using run False by (auto simp: captionFigure_def titled_W writer_defs)
    qed
  qed
qed

lemma table_titled:
  "walk_titled walk \<Longrightarrow> quiet s \<Longrightarrow> table X walk s n e = Inr s' \<Longrightarrow> titled s s'"
proof -
  assume ok: "walk_titled walk" and q: "quiet s" and run: "table X walk s n e = Inr s'"
  have pre: "\<And>u. titled s (s\<lparr>W := W s @ u\<rparr>)" by (simp add: titled_W)
  show ?thesis
  proof (cases "e \<and> parentData (T s) n = Some CaptionFigure")
    case False
    then show ?thesis using run pre
      by (auto simp: table_def Let_def writer_defs split: if_splits)
  next
    case True
    then have e: e and pc: "parentData (T s) n = Some CaptionFigure" by simp_all
    let ?s1 = "tableTitleOpen X s n"
    have e0: "titled s ?s1" using pre by (simp add: tableTitleOpen_def)
    note r = run[unfolded] table_enter_figure[OF pc, of X walk]
    show ?thesis
    proof (cases "firstCaption (T s) (Children (T s (the (Parent (T s n)))))")
      case None
      then show ?thesis using r e e0 by simp
    next
      case (Some c)
      with r e obtain status s2 where w: "walk ?s1 c = Inr (status, s2)"
        and s': "s' = s2\<lparr>T := RemoveFromTree (T s2) c\<rparr>"
        by (auto split: sum.splits)
      have e1: "titled ?s1 s2" using ok w titled_quiet[OF e0 q] by (auto simp: walk_titled_def)
      have "data (T ?s1 c) = Caption" using firstCaption_Some[OF Some] by (simp add: tableTitleOpen_def)
      then have "data (T s2 c) = Caption" using extends_data[OF titled_extends[OF e1]] by simp
      then have "titled s2 s'" unfolding s' by (simp add: titled_T frames_RemoveFromTree)
      then show ?thesis using e0 e1 titled_trans by blast
    qed
  qed
qed

lemma dispatch_plain:
  assumes d: "data (T s n) \<noteq> Title" "data (T s n) \<noteq> CaptionFigure" "data (T s n) \<noteq> Table"
    and run: "dispatch walk X s n e = Inr (st, s')"
  shows "title (R s') = title (R s) \<and> Visits s' = Visits s"
proof (cases "data (T s n)")
  case (DocumentMatter m)
  then show ?thesis using run
    by (auto simp: dispatch_def Let_def matter_eq simple_def split: if_splits)
next
  case (HeadingNode h)
  then show ?thesis using run
    by (auto simp: dispatch_def Let_def split: prod.splits dest!: heading_props)
qed (use d run in \<open>auto simp: dispatch_def Let_def simple_def split: sum.splits if_splits\<close>)

lemma dispatch_titled:
  assumes ok: "walk_titled walk" and q: "quiet s" and d: "data (T s n) \<noteq> Title"
    and wok: "walk_ok walk"
    and run: "dispatch walk X s n e = Inr (st, s')"
  shows "titled s s'"
proof (cases "data (T s n) = CaptionFigure \<or> data (T s n) = Table")
  case True
  then show ?thesis using run captionFigure_titled[OF ok q] table_titled[OF ok q]
    by (auto simp: dispatch_def Let_def lifted_def split: sum.splits)
next
  case False
  then have "title (R s') = title (R s) \<and> Visits s' = Visits s"
    using dispatch_plain[OF d _ _ run] by blast
  then show ?thesis using dispatch_extends[OF wok run] titled_same by blast
qed

lemma RenderNodeBody_titled:
  assumes ok: "walk_titled walk" and wok: "walk_ok walk" and q: "quiet s"
    and run: "RenderNodeBody walk X s n e = Inr (st, s')"
  shows "titled s s'"
proof -
  let ?s1 = "s\<lparr>Visits := Visits s @ [(n, e)]\<rparr>"
  have d: "dispatch walk X ?s1 n e = Inr (st, s')"
    using run q by (simp add: RenderNodeBody_def Let_def quiet_def)
  have e1: "extends s ?s1" by (simp add: extends_def frames_refl)
  have e2: "extends ?s1 s'" using dispatch_extends[OF wok d] .
  have e: "extends s s'" using e1 e2 extends_trans by blast
  have nv: "newVisits s s' = (n, e) # newVisits ?s1 s'"
    using newVisits_trans[OF e1 e2] by (simp add: newVisits_def)
  show ?thesis
  proof (cases "data (T s n) = Title")
    case True
    then have "title (R s')" using d by (auto simp: dispatch_def Let_def)
    then show ?thesis using e nv True by (simp add: titled_def)
  next
    case False
    have q1: "quiet ?s1" using q by (simp add: quiet_def)
    have "titled ?s1 s'" using dispatch_titled[OF ok q1 _ wok d] False by simp
    then show ?thesis using e nv False by (simp add: titled_def)
  qed
qed

lemma Walk_titled_of:
  assumes v: "\<forall>s n e st s'. quiet s \<longrightarrow> v s n e = Inr (st, s') \<longrightarrow> titled s s'"
    and q: "quiet s" and w: "Walk k v s n = Inr (st, s')"
  shows "titled s s'"
proof (rule Walk_rel(1)[where P = titled and Q = quiet and v = v, OF _ _ _ v q w])
  show "titled a a" for a by (rule titled_refl)
  show "titled a b \<Longrightarrow> titled b c \<Longrightarrow> titled a c" for a b c by (rule titled_trans)
  show "titled a b \<Longrightarrow> quiet a \<Longrightarrow> quiet b" for a b by (rule titled_quiet)
qed

lemma RenderNode_titled: "quiet s \<Longrightarrow> RenderNode k X s n e = Inr (st, s') \<Longrightarrow> titled s s'"
proof (induction k arbitrary: s n e st s')
  case 0
  have "walk_titled (\<lambda>s n. Inl OutOfFuel)" "walk_ok (\<lambda>s n. Inl OutOfFuel)"
    by (simp_all add: walk_titled_def walk_ok_def)
  then show ?case using RenderNodeBody_titled 0 by (metis RenderNode.simps(1))
next
  case (Suc k)
  have v: "\<forall>s n e st s'. quiet s \<longrightarrow> RenderNode k X s n e = Inr (st, s') \<longrightarrow> titled s s'"
    using Suc.IH by blast
  have "walk_titled (Walk k (RenderNode k X))"
    unfolding walk_titled_def using Walk_titled_of[OF v] by blast
  moreover have "walk_ok (Walk k (RenderNode k X))" by (simp add: Walk_ok RenderNode_ok)
  ultimately show ?case using RenderNodeBody_titled Suc.prems by (metis RenderNode.simps(2))
qed

lemma Walk_titled:
  "quiet s \<Longrightarrow> Walk k (RenderNode j X) s n = Inr (st, s') \<Longrightarrow> titled s s'"
proof -
  have v: "\<forall>s n e st s'. quiet s \<longrightarrow> RenderNode j X s n e = Inr (st, s') \<longrightarrow> titled s s'"
    using RenderNode_titled by blast
  show "quiet s \<Longrightarrow> Walk k (RenderNode j X) s n = Inr (st, s') \<Longrightarrow> titled s s'"
    using Walk_titled_of[OF v] by blast
qed

lemma title_visit:
  "quiet s \<Longrightarrow> data (T s n) = Title \<Longrightarrow>
     RenderNode j X s n e
       = Inr (GoToNext, s\<lparr>Visits := Visits s @ [(n, e)], W := W s @ titleBlock X (T s n),
                          R := (R s)\<lparr>title := True\<rparr>\<rparr>)"
  by (simp add: RenderNode_unfold RenderNodeBody_def quiet_def dispatch_def Let_def)


subsection \<open>Sections\<close>

text \<open>
  C1. For every sequence of headings visited in one render pass, the number of
  \<open></section>\<close> closing tags emitted immediately before the k-th heading's opening tag is
  exactly 1 if a section was open at that point and 0 otherwise, whatever the levels of the
  old and the new heading: the entering visit writes the closing text of the state reached
  after the first k headings, then the opening of the heading, and that closing text holds
  one section close if a section is open and none otherwise. After the first heading a
  section is open exactly if the previous heading was not special.
\<close>

theorem heading_closes_one_section:
  assumes "k < length hs"
  shows "\<exists>wk rk opn r'.
           renderHeadings X (w, r) (take k hs) = (wk, rk)
         \<and> heading X wk rk (hs ! k) True = (wk @ sectionCloseText X rk @ opn, r')
         \<and> headingEnter X (wk @ sectionCloseText X rk) (rk\<lparr>sectionR := Some (hs ! k)\<rparr>) (hs ! k)
             = (wk @ sectionCloseText X rk @ opn, r')
         \<and> occurrences ''</section>'' (sectionCloseText X rk) = (if sectionOpen rk then 1 else 0)
         \<and> sectionOpen rk = (if k = 0 then sectionOpen r else \<not> IsSpecial (hs ! (k - 1)))"
proof -
  obtain wk rk where a: "renderHeadings X (w, r) (take k hs) = (wk, rk)"
    by (cases "renderHeadings X (w, r) (take k hs)")
  let ?h = "hs ! k"
  obtain w' r' where b: "headingEnter X (wk @ sectionCloseText X rk) (rk\<lparr>sectionR := Some ?h\<rparr>) ?h = (w', r')"
    by (cases "headingEnter X (wk @ sectionCloseText X rk) (rk\<lparr>sectionR := Some ?h\<rparr>) ?h")
  from headingEnter_props[OF b] obtain opn where o: "w' = (wk @ sectionCloseText X rk) @ opn"
    by (auto simp: prefix_def)
  have c: "heading X wk rk ?h True = (wk @ sectionCloseText X rk @ opn, r')"
    using b o by (simp add: heading_def sectionClose_eq sectionCloseText_def)
  have d: "sectionOpen rk = (if k = 0 then sectionOpen r else \<not> IsSpecial (hs ! (k - 1)))"
  proof (cases "k = 0")
    case True
    then show ?thesis using a by simp
  next
    case False
    then have ne: "take k hs \<noteq> []" using assms by auto
    have "length (take k hs) = k" using assms by simp
    then have "last (take k hs) = take k hs ! (k - 1)"
      using ne last_conv_nth[of "take k hs"] by simp
    then have "last (take k hs) = hs ! (k - 1)"
      using False by simp
    then show ?thesis using sectionOpen_after[OF ne, of X "(w, r)"] a False by simp
  qed
  show ?thesis using a b c d o occ_close by auto
qed

theorem heading_closes_one_section_witness:
  "1 < length exampleHeadings \<and>
   (\<exists>wk rk opn r'.
      renderHeadings exampleExt ([], NewRenderer (exampleOptions 0)) (take 1 exampleHeadings) = (wk, rk)
    \<and> heading exampleExt wk rk (exampleHeadings ! 1) True
        = (wk @ sectionCloseText exampleExt rk @ opn, r')
    \<and> occurrences ''</section>'' (sectionCloseText exampleExt rk) = 1)"
proof -
  have h: "1 < length exampleHeadings" by (simp add: exampleHeadings_def)
  have "\<not> IsSpecial (exampleHeadings ! 0)" by (simp add: exampleHeadings_def)
  then show ?thesis
    using h heading_closes_one_section [OF h, of exampleExt "[]" "NewRenderer (exampleOptions 0)"]
    by auto
qed

subsection \<open>Document matter\<close>

text \<open>
  C2. For every render pass that visits the document matter nodes front, then main, then
  back, entering front closes any open section and then emits \<open><front>\<close>, entering main
  emits \<open></front>\<close> then \<open><middle>\<close>, entering back emits \<open></middle>\<close> then
  \<open><back>\<close>, and the exiting visit of a matter node emits nothing; so the three visits
  write each matter tag exactly once. The visit is one that the render hook did not
  handle.
\<close>

theorem matter_transitions:
  assumes "hookOutcome s n entering = (written, status, False)"
    and "data (T s n) = DocumentMatter m"
  shows "RenderNode k X s n entering =
     Inr (GoToNext,
       if entering then
         (visited s n entering written)\<lparr>
            W := W s @ written @ sectionCloseText X (R s) @ matterTags m,
            R := (R s)\<lparr>sectionR := None, documentMatter := m\<rparr>\<rparr>
       else visited s n entering written)
   \<and> occurrences ''<front>'' (sectionCloseText X r @ matterTags m)
         = (if m = DocumentMatterFront then 1 else 0)
   \<and> occurrences ''</front>'' (sectionCloseText X r @ matterTags m)
         = (if m = DocumentMatterMain then 1 else 0)
   \<and> occurrences ''<middle>'' (sectionCloseText X r @ matterTags m)
         = (if m = DocumentMatterMain then 1 else 0)
   \<and> occurrences ''</middle>'' (sectionCloseText X r @ matterTags m)
         = (if m = DocumentMatterBack then 1 else 0)
   \<and> occurrences ''<back>'' (sectionCloseText X r @ matterTags m)
         = (if m = DocumentMatterBack then 1 else 0)"
proof -
  have run: "RenderNode k X s n entering =
     Inr (GoToNext,
       if entering then
         (visited s n entering written)\<lparr>
            W := W s @ written @ sectionCloseText X (R s) @ matterTags m,
            R := (R s)\<lparr>sectionR := None, documentMatter := m\<rparr>\<rparr>
       else visited s n entering written)"
    using assms
    by (simp add: RenderNode_unhandled dispatch_def matter_eq sectionCloseText_def simple_def
        visited_def matterTags_def)
  have texts: "sectionCloseText X r = [] \<or> sectionCloseText X r = ''</section>'' @ nl
      \<or> sectionCloseText X r = ''</note>'' @ nl \<or> sectionCloseText X r = ''</abstract>'' @ nl"
    by (simp add: sectionCloseText_def closeTag_def split: option.splits)
  have c1: "occurrences ''<front>'' (sectionCloseText X r @ matterTags m)
           = (if m = DocumentMatterFront then 1 else 0)"
    using texts by (cases m) (auto simp: matterTags_def nl_def)
  have c2: "occurrences ''</front>'' (sectionCloseText X r @ matterTags m)
           = (if m = DocumentMatterMain then 1 else 0)"
    using texts by (cases m) (auto simp: matterTags_def nl_def)
  have c3: "occurrences ''<middle>'' (sectionCloseText X r @ matterTags m)
           = (if m = DocumentMatterMain then 1 else 0)"
    using texts by (cases m) (auto simp: matterTags_def nl_def)
  have c4: "occurrences ''</middle>'' (sectionCloseText X r @ matterTags m)
           = (if m = DocumentMatterBack then 1 else 0)"
    using texts by (cases m) (auto simp: matterTags_def nl_def)
  have c5: "occurrences ''<back>'' (sectionCloseText X r @ matterTags m)
           = (if m = DocumentMatterBack then 1 else 0)"
    using texts by (cases m) (auto simp: matterTags_def nl_def)
  show ?thesis using run c1 c2 c3 c4 c5 by blast
qed

theorem matter_transitions_witness:
  "hookOutcome (exampleState 0 matterTree) 0 True = ([], GoToNext, False)
   \<and> data (T (exampleState 0 matterTree) 0) = DocumentMatter DocumentMatterMain
   \<and> (\<exists>s'. RenderNode 0 exampleExt (exampleState 0 matterTree) 0 True = Inr (GoToNext, s')
          \<and> W s' = nl @ ''</front>'' @ nl @ nl @ ''<middle>'' @ nl
          \<and> documentMatter (R s') = DocumentMatterMain)"
proof -
  have h: "hookOutcome (exampleState 0 matterTree) 0 True = ([], GoToNext, False)"
    by (simp add: hookOutcome_def exampleState_def NewRenderer_def exampleOptions_def)
  have d: "data (T (exampleState 0 matterTree) 0) = DocumentMatter DocumentMatterMain"
    by (simp add: exampleState_def matterTree_def mkNode_def)
  show ?thesis
    using h d matter_transitions [OF h d, of 0 exampleExt]
    by (simp add: sectionCloseText_def exampleState_def NewRenderer_def matterTags_def)
qed

subsection \<open>The footer\<close>

text \<open>
  C6. When the walk completes and \<open>RenderFooter\<close> is called, any section still open is
  closed, then the closing tag of the document matter region that is open is emitted
  (none if no region was entered), and the closing root tag is appended if and only if the
  title flag is set. A visit of a title node writes the title block and sets the flag, and
  in a render pass without a render hook the closing root tag ends the output if and only
  if the walk has visited a title node.
\<close>

theorem RenderFooter_closes:
  "RenderFooter X w r =
     (w @ sectionCloseText X r @ matterCloseText (documentMatter r)
        @ (if title r then nl @ ''</rfc>'' else []),
      r\<lparr>sectionR := None\<rparr>)
   \<and> (quiet s \<and> data (T s n) = Title \<longrightarrow>
        RenderNode j X s n e
          = Inr (GoToNext, s\<lparr>Visits := Visits s @ [(n, e)], W := W s @ titleBlock X (T s n),
                             R := (R s)\<lparr>title := True\<rparr>\<rparr>))
   \<and> (RenderNodeHook options = None \<and> Render fuel X options t doc = Inr xml \<longrightarrow>
        (\<exists>status s'.
           Walk fuel (RenderNode fuel X)
             \<lparr>W = RenderHeader [] (NewRenderer options), R = NewRenderer options, T = t, Visits = []\<rparr> doc
             = Inr (status, s')
         \<and> xml = W s' @ sectionCloseText X (R s') @ matterCloseText (documentMatter (R s'))
             @ (if \<exists>x \<in> set (Visits s'). data (t (fst x)) = Title then nl @ ''</rfc>'' else [])))"
proof -
  let ?s0 = "\<lparr>W = RenderHeader [] (NewRenderer options), R = NewRenderer options, T = t, Visits = []\<rparr>"
  have a: "RenderFooter X w r =
     (w @ sectionCloseText X r @ matterCloseText (documentMatter r)
        @ (if title r then nl @ ''</rfc>'' else []),
      r\<lparr>sectionR := None\<rparr>)" for w r
    by (simp add: RenderFooter_eq)
  have c: "\<exists>status s'. Walk fuel (RenderNode fuel X) ?s0 doc = Inr (status, s')
         \<and> xml = W s' @ sectionCloseText X (R s') @ matterCloseText (documentMatter (R s'))
             @ (if \<exists>x \<in> set (Visits s'). data (t (fst x)) = Title then nl @ ''</rfc>'' else [])"
    if h: "RenderNodeHook options = None" and run: "Render fuel X options t doc = Inr xml"
  proof -
    from run obtain status s' where w: "Walk fuel (RenderNode fuel X) ?s0 doc = Inr (status, s')"
      and o: "xml = fst (RenderFooter X (W s') (R s'))"
      by (auto simp: Render_def Let_def split: sum.splits)
    have q: "quiet ?s0" using h by (simp add: quiet_def NewRenderer_def)
    have "titled ?s0 s'" using Walk_titled[OF q w] .
    then have "title (R s') \<longleftrightarrow> (\<exists>x \<in> set (Visits s'). data (t (fst x)) = Title)"
      by (simp add: titled_def newVisits_def NewRenderer_def)
    then show ?thesis using w o a by simp
  qed
  show ?thesis using a title_visit c by blast
qed

theorem RenderFooter_closes_witness:
  "RenderNodeHook (exampleOptions 0) = None
   \<and> Render (Suc (Suc 0)) exampleExt (exampleOptions 0) titleTree 0
       = Inr (documentHeaderText @ ''<rfc>'' @ nl @ ''</rfc>'')
   \<and> (\<exists>status s'.
         Walk (Suc (Suc 0)) (RenderNode (Suc (Suc 0)) exampleExt)
           \<lparr>W = RenderHeader [] (NewRenderer (exampleOptions 0)), R = NewRenderer (exampleOptions 0),
            T = titleTree, Visits = []\<rparr> 0
           = Inr (status, s')
       \<and> documentHeaderText @ ''<rfc>'' @ nl @ ''</rfc>''
           = W s' @ sectionCloseText exampleExt (R s') @ matterCloseText (documentMatter (R s'))
             @ (if \<exists>x \<in> set (Visits s'). data (titleTree (fst x)) = Title then nl @ ''</rfc>'' else []))"
proof -
  have h: "RenderNodeHook (exampleOptions 0) = None" by (simp add: exampleOptions_def)
  have r: "Render (Suc (Suc 0)) exampleExt (exampleOptions 0) titleTree 0
       = Inr (documentHeaderText @ ''<rfc>'' @ nl @ ''</rfc>'')"
    by (simp add: Render_def RenderHeader_eq NewRenderer_def exampleOptions_def XMLFragment_def
      RenderNodeBody_def dispatch_def simple_def titleTree_def emptyTree_def mkNode_def
      exampleExt_def RenderFooter_def sectionClose_def Let_def)
  note t = RenderFooter_closes [of exampleExt "[]" "NewRenderer (exampleOptions 0)"
      "exampleState 0 titleTree" 1 0 True "exampleOptions 0" "Suc (Suc 0)" titleTree 0
      "documentHeaderText @ ''<rfc>'' @ nl @ ''</rfc>''"]
  from t h r show ?thesis by blast
qed

subsection \<open>Images\<close>

text \<open>
  C9. For every image node visited while \<open>SkipImages\<close> is set, the dispatcher returns
  \<open>SkipChildren\<close> and writes nothing for the node, on the entering and on the exiting
  visit: the state after the visit is the state after the hook, which did not handle the
  node.
\<close>

theorem image_skipped:
  assumes "hookOutcome s n entering = (written, status, False)"
    and "data (T s n) = Image dest ttl"
    and "Flags (opts (R s)) AND SkipImages \<noteq> 0"
  shows "RenderNode k X s n entering = Inr (SkipChildren, visited s n entering written)"
  using assms by (simp add: RenderNode_unhandled dispatch_def)

theorem image_skipped_witness:
  "hookOutcome (exampleState SkipImages imageTree) 0 True = ([], GoToNext, False)
   \<and> data (T (exampleState SkipImages imageTree) 0) = Image ''a.png'' None
   \<and> Flags (opts (R (exampleState SkipImages imageTree))) AND SkipImages \<noteq> 0
   \<and> (\<exists>s'. RenderNode 0 exampleExt (exampleState SkipImages imageTree) 0 True
               = Inr (SkipChildren, s') \<and> W s' = [])"
proof -
  have h: "hookOutcome (exampleState SkipImages imageTree) 0 True = ([], GoToNext, False)"
    by (simp add: hookOutcome_def exampleState_def NewRenderer_def exampleOptions_def)
  have d: "data (T (exampleState SkipImages imageTree) 0) = Image ''a.png'' None"
    by (simp add: exampleState_def imageTree_def mkNode_def)
  have f: "Flags (opts (R (exampleState SkipImages imageTree))) AND SkipImages \<noteq> 0"
    by (simp add: exampleState_def NewRenderer_def exampleOptions_def SkipImages_def)
  show ?thesis
    using h d f image_skipped [OF h d f, of 0 exampleExt]
    by (simp add: exampleState_def)
qed

subsection \<open>Unknown nodes\<close>



subsection \<open>Links\<close>

text \<open>
  C10. For every link node the fragment written opens with the tag \<open>eref\<close>, whose
  target is the escaped destination, and closes with \<open></iref>\<close> instead of
  \<open></eref>\<close>, on every visit whatever the entering flag. When the escaped destination
  holds no double quote, the tags of the fragment are an opening \<open>eref\<close> followed by a
  closing \<open>iref\<close>, so no sequence of tags that contains them is well nested.
\<close>

theorem link_closes_with_iref:
  assumes "hookOutcome s n entering = (written, status, False)"
    and "data (T s n) = Link dest"
    and "CHR 0x22 \<notin> set (EscapeHTML X dest)"
  shows \<open>link X w dest entering = w @ ''<eref target="'' @ EscapeHTML X dest @ ''"></iref>''
     \<and> RenderNode k X s n entering =
         Inr (GoToNext, (visited s n entering written)\<lparr>
           W := W s @ written @ ''<eref target="'' @ EscapeHTML X dest @ ''"></iref>''\<rparr>)
     \<and> xmlTags (''<eref target="'' @ EscapeHTML X dest @ ''"></iref>'')
         = [OpenTag ''eref'', CloseTag ''iref'']
     \<and> (\<forall>stack before after.
           \<not> wellNested stack
               (before @ xmlTags (''<eref target="'' @ EscapeHTML X dest @ ''"></iref>'') @ after))\<close>
proof -
  have run: \<open>RenderNode k X s n entering =
         Inr (GoToNext, (visited s n entering written)\<lparr>
           W := W s @ written @ ''<eref target="'' @ EscapeHTML X dest @ ''"></iref>''\<rparr>)\<close>
    using assms(2)
    by (simp add: RenderNode_unhandled[OF assms(1)] dispatch_def simple_def link_eq)
  have tags: \<open>xmlTags (''<eref target="'' @ EscapeHTML X dest @ ''"></iref>'')
         = [OpenTag ''eref'', CloseTag ''iref'']\<close>
    using link_tags[OF assms(3)] .
  have "\<And>stack before after.
           \<not> wellNested stack (before @ [OpenTag ''eref'', CloseTag ''iref''] @ after)"
    using mismatch_not_nested[of "''eref''" "''iref''"] by simp
  then show ?thesis using run tags link_eq by simp
qed

theorem link_closes_with_iref_witness:
  \<open>hookOutcome (exampleState 0 linkTree) 0 True = ([], GoToNext, False)
   \<and> data (T (exampleState 0 linkTree) 0) = Link ''http://a/?x=1&y=2''
   \<and> CHR 0x22 \<notin> set (EscapeHTML exampleExt ''http://a/?x=1&y=2'')
   \<and> (\<exists>s'. RenderNode 0 exampleExt (exampleState 0 linkTree) 0 True = Inr (GoToNext, s')
          \<and> W s' = ''<eref target="http://a/?x=1&amp;y=2"></iref>'')\<close>
proof -
  have h: "hookOutcome (exampleState 0 linkTree) 0 True = ([], GoToNext, False)"
    by (simp add: hookOutcome_def exampleState_def NewRenderer_def exampleOptions_def)
  have d: "data (T (exampleState 0 linkTree) 0) = Link ''http://a/?x=1&y=2''"
    by (simp add: exampleState_def linkTree_def mkNode_def)
  have e: "EscapeHTML exampleExt ''http://a/?x=1&y=2'' = ''http://a/?x=1&amp;y=2''"
    by (simp add: exampleExt_def)
  have q: "CHR 0x22 \<notin> set (EscapeHTML exampleExt ''http://a/?x=1&y=2'')"
    by (simp add: e)
  show ?thesis
    using h d q link_closes_with_iref [OF h d q, of "[]" 0] e
    by (simp add: exampleState_def)
qed

subsection \<open>Header, fragment flag and root tag\<close>

text \<open>
  C7, as the code has it. When \<open>XMLFragment\<close> is set the header writes nothing: no XML
  declaration, no generator comment and no DOCTYPE. When it is not set the output begins
  with the XML declaration, the generator comment and the DOCTYPE that names
  \<open>rfc2629.dtd\<close>. In both cases the footer appends the closing root tag exactly when
  the title flag is set, so a fragment with a title block ends with the closing root tag
  too.
\<close>

theorem Render_header_and_root_close:
  assumes "Render fuel X options t doc = Inr xml"
  shows "\<exists>status s.
       Walk fuel (RenderNode fuel X)
         \<lparr>W = RenderHeader [] (NewRenderer options), R = NewRenderer options, T = t, Visits = []\<rparr> doc
         = Inr (status, s)
     \<and> RenderHeader [] (NewRenderer options)
         = (if Flags options AND XMLFragment \<noteq> 0 then [] else documentHeaderText)
     \<and> prefix (RenderHeader [] (NewRenderer options)) xml
     \<and> xml = W s @ sectionCloseText X (R s) @ matterCloseText (documentMatter (R s))
         @ (if title (R s) then nl @ ''</rfc>'' else [])"
proof -
  let ?s0 = "\<lparr>W = RenderHeader [] (NewRenderer options), R = NewRenderer options, T = t, Visits = []\<rparr>"
  from assms obtain status s where w: "Walk fuel (RenderNode fuel X) ?s0 doc = Inr (status, s)"
    and o: "xml = fst (RenderFooter X (W s) (R s))"
    by (auto simp: Render_def Let_def split: sum.splits)
  have "extends ?s0 s" using Walk_extends(1)[OF RenderNode_ok w] .
  then have p: "prefix (RenderHeader [] (NewRenderer options)) (W s)" by (simp add: extends_def)
  have h: "RenderHeader [] (NewRenderer options)
         = (if Flags options AND XMLFragment \<noteq> 0 then [] else documentHeaderText)"
    by (simp add: RenderHeader_eq NewRenderer_def)
  have o2: "xml = W s @ sectionCloseText X (R s) @ matterCloseText (documentMatter (R s))
         @ (if title (R s) then nl @ ''</rfc>'' else [])"
    using o by (simp add: RenderFooter_eq)
  have "prefix (RenderHeader [] (NewRenderer options)) xml"
    using p o2 by (metis prefix_prefix)
  then show ?thesis using w h o2 by blast
qed

theorem Render_header_and_root_close_witness:
  "Render (Suc (Suc 0)) exampleExt (exampleOptions 0) titleTree 0
       = Inr (documentHeaderText @ ''<rfc>'' @ nl @ ''</rfc>'')
   \<and> prefix documentHeaderText (documentHeaderText @ ''<rfc>'' @ nl @ ''</rfc>'')"
proof -
  have r: "Render (Suc (Suc 0)) exampleExt (exampleOptions 0) titleTree 0
       = Inr (documentHeaderText @ ''<rfc>'' @ nl @ ''</rfc>'')"
    by (simp add: Render_def RenderHeader_eq NewRenderer_def exampleOptions_def XMLFragment_def
      RenderNodeBody_def dispatch_def simple_def titleTree_def emptyTree_def mkNode_def
      exampleExt_def RenderFooter_def sectionClose_def Let_def)
  show ?thesis
    using r Render_header_and_root_close [OF r] by (simp add: exampleOptions_def)
qed

text \<open>
  C7 as stated fails: with \<open>XMLFragment\<close> set, a document that holds a title block is
  rendered with the closing root tag at its end.
\<close>

theorem fragment_root_close_counterexample:
  "Flags (exampleOptions XMLFragment) AND XMLFragment \<noteq> 0
   \<and> Render (Suc (Suc 0)) exampleExt (exampleOptions XMLFragment) titleTree 0
       = Inr (''<rfc>'' @ nl @ ''</rfc>'')"
  by (simp add: Render_def RenderHeader_def NewRenderer_def exampleOptions_def XMLFragment_def
      RenderNodeBody_def dispatch_def simple_def titleTree_def emptyTree_def mkNode_def
      exampleExt_def RenderFooter_def sectionClose_def Let_def)

subsection \<open>Heading identifiers\<close>




subsection \<open>A table in a figure\<close>




subsection \<open>Captions rendered into a title\<close>




end
